theory Spec2Isabelle
  imports Complex_Main "HOL-Library.Word"
begin

section \<open>Values of the Python program\<close>

text \<open>
  The program is \<^verbatim>\<open>src/main.py\<close>: \<^verbatim>\<open>extract_images_from_pdf\<close> (lines 20-161) and the
  Cloud Function entry point \<^verbatim>\<open>extract_images_from_pdf_gcs_trigger\<close> (lines 167-255).
  A Python \<^verbatim>\<open>float\<close> (a ratio, a page height, a rectangle edge) is the real number
  that the IEEE double holds; comparisons are the exact ones, and every sum, difference
  and product of the program is rounded to the nearest double (see \<open>double\<close> below).
  Infinities and NaN are not values of the model. Python \<^verbatim>\<open>str\<close> is \<^typ>\<open>string\<close>,
  \<^verbatim>\<open>bytes\<close> a list of 8-bit words, counters and page indices are \<^typ>\<open>nat\<close>,
  cross-reference numbers are \<^typ>\<open>int\<close>.
\<close>

type_synonym bytes = "8 word list"

text \<open>
  Exceptions, as far as the handlers of the program tell them apart:
  \<^verbatim>\<open>except RuntimeError\<close>, \<^verbatim>\<open>except NotFound\<close>, \<^verbatim>\<open>except KeyError\<close> and
  \<^verbatim>\<open>except Exception\<close>. \<open>NonException\<close> stands for a \<^verbatim>\<open>BaseException\<close> that is not an
  \<^verbatim>\<open>Exception\<close> (\<^verbatim>\<open>KeyboardInterrupt\<close>, \<^verbatim>\<open>SystemExit\<close>): no handler of the program
  catches it.
\<close>

datatype pyexc = RuntimeError | NotFound | KeyError | OtherException | NonException

definition is_Exception :: "pyexc \<Rightarrow> bool" where
  "is_Exception e = (e \<noteq> NonException)"

subsection \<open>Double arithmetic\<close>

text \<open>
  Python rounds the exact result of \<^verbatim>\<open>+\<close>, \<^verbatim>\<open>-\<close> and \<^verbatim>\<open>*\<close> on floats to the nearest IEEE
  binary64 number, ties to the even mantissa. \<open>double x\<close> is that rounding of the
  real \<open>x\<close>: with \<open>2 ^ e \<le> x < 2 ^ (e + 1)\<close> the doubles around \<open>x\<close> are the multiples
  of \<open>2 ^ (e - 52)\<close>, and of \<open>2 ^ - 1074\<close> in the subnormal range. A decimal literal
  of the program denotes the rounding of its decimal value. Overflow to infinity is
  not modelled: the program multiplies a page height by a number below 1 and adds
  and subtracts numbers below 1.
\<close>

text \<open>The number of binary digits of a natural number.\<close>

fun bit_length :: "nat \<Rightarrow> nat" where
  "bit_length n = (if n = 0 then 0 else Suc (bit_length (n div 2)))"

declare bit_length.simps [simp del]

text \<open>For \<open>x > 0\<close>, the \<open>e\<close> with \<open>2 ^ e \<le> x < 2 ^ (e + 1)\<close>.\<close>

definition floor_log2 :: "real \<Rightarrow> int" where
  "floor_log2 x =
     (if 1 \<le> x then int (bit_length (nat \<lfloor>x\<rfloor>)) - 1
      else - int (bit_length (nat (\<lceil>1 / x\<rceil> - 1))))"

definition round_half_even :: "real \<Rightarrow> int" where
  "round_half_even x =
     (if x - of_int \<lfloor>x\<rfloor> < 1 / 2 then \<lfloor>x\<rfloor>
      else if x - of_int \<lfloor>x\<rfloor> > 1 / 2 then \<lfloor>x\<rfloor> + 1
      else if even \<lfloor>x\<rfloor> then \<lfloor>x\<rfloor>
      else \<lfloor>x\<rfloor> + 1)"

definition ulp_exponent :: "real \<Rightarrow> int" where
  "ulp_exponent x = max (floor_log2 x - 52) (- 1074)"

definition round_pos :: "real \<Rightarrow> real" where
  "round_pos x = of_int (round_half_even (x / 2 powi ulp_exponent x)) * 2 powi ulp_exponent x"

definition double :: "real \<Rightarrow> real" where
  "double x = (if x = 0 then 0 else if x < 0 then - round_pos (- x) else round_pos x)"

text \<open>A real number is a double when rounding leaves it as it is and it is in range.\<close>

definition is_double :: "real \<Rightarrow> bool" where
  "is_double x = (double x = x \<and> \<bar>x\<bar> < 2 ^ 1024)"

subsection \<open>String operations of the standard library\<close>

text \<open>\<^verbatim>\<open>str.lower\<close> on the ASCII letters; other characters are left as they are.\<close>

definition lower_char :: "char \<Rightarrow> char" where
  "lower_char c =
     (case map_of (zip ''ABCDEFGHIJKLMNOPQRSTUVWXYZ'' ''abcdefghijklmnopqrstuvwxyz'') c of
        Some d \<Rightarrow> d
      | None \<Rightarrow> c)"

definition lower :: "string \<Rightarrow> string" where
  "lower s = map lower_char s"

definition endswith :: "string \<Rightarrow> string \<Rightarrow> bool" where
  "endswith s suf = (length suf \<le> length s \<and> drop (length s - length suf) s = suf)"

definition startswith :: "string \<Rightarrow> string \<Rightarrow> bool" where
  "startswith s pre = (take (length pre) s = pre)"

text \<open>\<^verbatim>\<open>s.strip(chars)\<close>: leading and trailing characters of \<open>chars\<close> are removed.\<close>

definition strip :: "string \<Rightarrow> string \<Rightarrow> string" where
  "strip chars s =
     rev (dropWhile (\<lambda>c. c \<in> set chars) (rev (dropWhile (\<lambda>c. c \<in> set chars) s)))"

text \<open>\<^verbatim>\<open>os.path.basename\<close> (posixpath): what follows the last slash.\<close>

definition basename :: "string \<Rightarrow> string" where
  "basename p = rev (takeWhile (\<lambda>c. c \<noteq> CHR ''/'') (rev p))"

text \<open>
  \<^verbatim>\<open>os.path.splitext(p)[0]\<close> (posixpath): the path up to the last dot of its last
  component, unless that component has only dots before it (leading dots are no
  extension separator).
\<close>

definition splitext_root :: "string \<Rightarrow> string" where
  "splitext_root p =
     (let tail = takeWhile (\<lambda>c. c \<noteq> CHR ''/'') (rev p);
          ext_rev = takeWhile (\<lambda>c. c \<noteq> CHR ''.'') tail;
          stem = drop (length ext_rev + 1) tail
      in if CHR ''.'' \<in> set tail \<and> list_ex (\<lambda>c. c \<noteq> CHR ''.'') stem
         then take (length p - (length ext_rev + 1)) p
         else p)"

text \<open>The decimal numeral an f-string prints for a non-negative integer.\<close>

fun str_nat :: "nat \<Rightarrow> string" where
  "str_nat n =
     (if n < 10 then [''0123456789'' ! n]
      else str_nat (n div 10) @ [''0123456789'' ! (n mod 10)])"

declare str_nat.simps [simp del]

section \<open>The PDF library, the image library and the bucket, as the program sees them\<close>

text \<open>A \<^verbatim>\<open>fitz.Rect\<close>: \<open>y0\<close> is its top edge and \<open>y1\<close> its bottom edge.\<close>

record rect =
  x0 :: real
  y0 :: real
  x1 :: real
  y1 :: real

text \<open>
  An entry of \<^verbatim>\<open>page.get_images(full=True)\<close>; the program reads only its first
  component, the cross-reference number (line 70).
\<close>

record img_info =
  xref :: int
  img_name :: string

text \<open>
  A page: \<^verbatim>\<open>page.rect.height\<close>, the result of \<^verbatim>\<open>page.get_images(full=True)\<close> and of
  \<^verbatim>\<open>page.get_image_rects(img_info, transform=False)\<close>; \<open>Inl\<close> is a raised exception.
\<close>

record page =
  height :: real
  get_images :: "pyexc + img_info list"
  get_image_rects :: "img_info \<Rightarrow> pyexc + rect list"

text \<open>
  The dictionary \<^verbatim>\<open>extract_image\<close> returns: its \<^verbatim>\<open>"image"\<close> and \<^verbatim>\<open>"ext"\<close> entries
  (\<open>None\<close> when the key is absent).
\<close>

record base_image =
  image_entry :: "bytes option"
  ext_entry :: "string option"

text \<open>
  An opened \<^verbatim>\<open>fitz.Document\<close>: \<open>pages\<close> holds, for every index below \<^verbatim>\<open>page_count\<close>,
  what \<^verbatim>\<open>pdf_document[page_num]\<close> gives; \<open>extract_image\<close> returns \<open>Inr None\<close> for a
  falsy result (\<^verbatim>\<open>None\<close> or an empty dictionary); \<open>close\<close> is \<open>Some e\<close> when
  \<^verbatim>\<open>pdf_document.close()\<close> raises \<open>e\<close>.
\<close>

record document =
  pages :: "(pyexc + page) list"
  extract_image :: "int \<Rightarrow> pyexc + base_image option"
  close :: "pyexc option"

definition page_count :: "document \<Rightarrow> nat" where
  "page_count d = length (pages d)"

text \<open>
  The truth value of a document object in \<^verbatim>\<open>if pdf_document:\<close> (line 156). The class
  \<^verbatim>\<open>fitz.Document\<close> defines \<^verbatim>\<open>__len__\<close> as its page count and no \<^verbatim>\<open>__bool__\<close>, so
  Python takes an opened document with no page for false.
\<close>

definition truthy :: "document \<Rightarrow> bool" where
  "truthy d = (page_count d \<noteq> 0)"

text \<open>
  Images of the image library are kept as the calls that made them:
  \<^verbatim>\<open>Image.open\<close> (mode, size, encoded data), \<^verbatim>\<open>Image.new(mode, size, color)\<close>,
  the background after \<^verbatim>\<open>background.paste(im, mask=m)\<close>, the last band of
  \<^verbatim>\<open>im.split()\<close>, and \<^verbatim>\<open>im.convert(mode)\<close>.
\<close>

datatype pil_image =
    Opened string "nat \<times> nat" bytes
  | New string "nat \<times> nat" "nat \<times> nat \<times> nat"
  | Pasted pil_image pil_image pil_image
  | Last_band pil_image
  | Converted pil_image string

fun mode :: "pil_image \<Rightarrow> string" where
  "mode (Opened m s d) = m"
| "mode (New m s c) = m"
| "mode (Pasted background im alpha) = mode background"
| "mode (Last_band im) = ''L''"
| "mode (Converted im m) = m"

fun size_px :: "pil_image \<Rightarrow> nat \<times> nat" where
  "size_px (Opened m s d) = s"
| "size_px (New m s c) = s"
| "size_px (Pasted background im alpha) = size_px background"
| "size_px (Last_band im) = size_px im"
| "size_px (Converted im m) = size_px im"

text \<open>
  The calls into the libraries whose results the program cannot compute:
  \<^verbatim>\<open>fitz.open(stream=..., filetype="pdf")\<close>, \<^verbatim>\<open>Image.open(io.BytesIO(...))\<close> and
  \<^verbatim>\<open>pil_image.save(buffer, format, quality=q)\<close> (the bytes left in the buffer).
\<close>

record libraries =
  fitz_open :: "bytes \<Rightarrow> pyexc + document"
  Image_open :: "bytes \<Rightarrow> pyexc + pil_image"
  Image_save :: "pil_image \<Rightarrow> string \<Rightarrow> nat \<Rightarrow> pyexc + bytes"

text \<open>
  The output bucket: \<open>upload_from_file path data content_type\<close> is \<open>Some e\<close> when
  \<^verbatim>\<open>output_bucket_obj.blob(path).upload_from_file(...)\<close> raises \<open>e\<close>.
\<close>

record bucket =
  bucket_name :: string
  upload_from_file :: "string \<Rightarrow> bytes \<Rightarrow> string \<Rightarrow> pyexc option"

record blob =
  blob_path :: string
  blob_data :: bytes
  blob_content_type :: string

section \<open>\<^verbatim>\<open>extract_images_from_pdf\<close>\<close>

text \<open>
  Lines 36-37: a ratio outside \<open>[0, 1)\<close> is replaced by the double that the literal
  \<^verbatim>\<open>0.10\<close> denotes.
\<close>

definition valid_ratio :: "real \<Rightarrow> real" where
  "valid_ratio r = (if \<not> (0 \<le> r \<and> r < 1) then double 0.10 else r)"

text \<open>
  Line 38: the test compares the rounded sum of the two ratios with 1; the warning
  is printed, nothing else changes.
\<close>

definition ratio_warning :: "real \<Rightarrow> real \<Rightarrow> bool" where
  "ratio_warning header_ratio footer_ratio = (double (header_ratio + footer_ratio) \<ge> 1)"

text \<open>
  Lines 57-58: the product is rounded; for the footer limit the difference
  \<^verbatim>\<open>1.0 - footer_ratio\<close> is rounded first, then the product.
\<close>

definition header_limit :: "real \<Rightarrow> real \<Rightarrow> real" where
  "header_limit page_height header_ratio = double (page_height * header_ratio)"

definition footer_limit :: "real \<Rightarrow> real \<Rightarrow> real" where
  "footer_limit page_height footer_ratio = double (page_height * double (1 - footer_ratio))"

text \<open>
  Lines 86-90, the loop over the rectangles with its \<^verbatim>\<open>break\<close>: the flag stays true
  until a rectangle is neither above the header limit nor below the footer limit.
\<close>

fun rects_loop :: "real \<Rightarrow> real \<Rightarrow> rect list \<Rightarrow> bool" where
  "rects_loop hl fl [] = True"
| "rects_loop hl fl (r # rs) =
     (if \<not> (y1 r \<le> hl \<or> y0 r \<ge> fl) then False else rects_loop hl fl rs)"

text \<open>Lines 83-90: the flag is false by default and computed only for a non-empty list.\<close>

definition is_potentially_header_footer :: "real \<Rightarrow> real \<Rightarrow> rect list \<Rightarrow> bool" where
  "is_potentially_header_footer hl fl image_rects =
     (if image_rects \<noteq> [] then rects_loop hl fl image_rects else False)"

text \<open>Line 92, the condition of the skip.\<close>

definition skip_header_footer :: "real \<Rightarrow> real \<Rightarrow> rect list \<Rightarrow> bool" where
  "skip_header_footer hl fl image_rects =
     (is_potentially_header_footer hl fl image_rects \<and> image_rects \<noteq> [])"

text \<open>
  Lines 116-125: the conversion before the JPEG encoder. The calls \<^verbatim>\<open>Image.new\<close>,
  \<^verbatim>\<open>split\<close>, \<^verbatim>\<open>paste\<close> and \<^verbatim>\<open>convert\<close> are taken to return; decoding and encoding are
  the calls that can fail.
\<close>

definition convert_to_rgb :: "pil_image \<Rightarrow> pil_image" where
  "convert_to_rgb pil_image =
     (if mode pil_image \<in> set [''RGBA'', ''P'', ''LA''] then
        (if mode pil_image \<in> set [''RGBA'', ''LA''] then
           Pasted (New ''RGB'' (size_px pil_image) (255, 255, 255)) pil_image (Last_band pil_image)
         else Converted pil_image ''RGB'')
      else pil_image)"

text \<open>Line 46.\<close>

definition pdf_filename_base :: "string \<Rightarrow> string" where
  "pdf_filename_base pdf_gcs_name = splitext_root (basename pdf_gcs_name)"

text \<open>Lines 132-133; \<open>page_num\<close> and \<open>image_count\<close> are the 0-based values of the loop.\<close>

definition final_image_name :: "string \<Rightarrow> nat \<Rightarrow> nat \<Rightarrow> string" where
  "final_image_name pdf_gcs_name page_num image_count =
     pdf_filename_base pdf_gcs_name @ ''_page_'' @ str_nat (page_num + 1) @
     ''_img_'' @ str_nat (image_count + 1) @ ''.jpg''"

definition final_blob_path :: "string \<Rightarrow> string \<Rightarrow> nat \<Rightarrow> nat \<Rightarrow> string" where
  "final_blob_path image_dir pdf_gcs_name page_num image_count =
     strip ''/'' image_dir @ ''/'' @ final_image_name pdf_gcs_name page_num image_count"

text \<open>
  What one run has done so far: the two counters of lines 43-44, the blobs uploaded
  to the bucket (oldest first), and the record of what the loop body did with each
  reference it reached: the skip of lines 93-96 or the call of line 101.
\<close>

datatype event = Header_footer_skip nat int | Extract_image nat int

fun event_xref :: "event \<Rightarrow> int" where
  "event_xref (Header_footer_skip n x) = x"
| "event_xref (Extract_image n x) = x"

fun event_page :: "event \<Rightarrow> nat" where
  "event_page (Header_footer_skip n x) = n"
| "event_page (Extract_image n x) = n"

record state =
  image_count :: nat
  skipped_header_footer :: nat
  uploaded :: "blob list"
  events :: "event list"

definition init_state :: state where
  "init_state = \<lparr>image_count = 0, skipped_header_footer = 0, uploaded = [], events = []\<rparr>"

text \<open>What the loops of one document work with.\<close>

record env =
  libs :: libraries
  pdf_document :: document
  output_bucket_obj :: bucket
  pdf_gcs_name :: string
  image_dir :: string

text \<open>
  Lines 101-139, the body of the \<^verbatim>\<open>try\<close> for one reference: \<open>Inl e\<close> when a call
  raises, \<open>Inr None\<close> for the \<^verbatim>\<open>continue\<close> of line 104, \<open>Inr (Some b)\<close> when the blob
  \<open>b\<close> has been uploaded. The names of lines 107-111 are computed and never used.
\<close>

definition extract_and_upload :: "env \<Rightarrow> nat \<Rightarrow> nat \<Rightarrow> int \<Rightarrow> pyexc + blob option" where
  "extract_and_upload c page_num count xr =
     (case extract_image (pdf_document c) xr of
        Inl e \<Rightarrow> Inl e
      | Inr None \<Rightarrow> Inr None
      | Inr (Some bi) \<Rightarrow>
          (case image_entry bi of
             None \<Rightarrow> Inr None
           | Some image_bytes \<Rightarrow>
               if image_bytes = [] then Inr None
               else
                 (case Image_open (libs c) image_bytes of
                    Inl e \<Rightarrow> Inl e
                  | Inr pil_image \<Rightarrow>
                      (case Image_save (libs c) (convert_to_rgb pil_image) ''JPEG'' 85 of
                         Inl e \<Rightarrow> Inl e
                       | Inr image_buffer \<Rightarrow>
                           (case upload_from_file (output_bucket_obj c)
                                   (final_blob_path (image_dir c) (pdf_gcs_name c) page_num count)
                                   image_buffer ''image/jpeg'' of
                              Some e \<Rightarrow> Inl e
                            | None \<Rightarrow>
                                Inr (Some \<lparr>blob_path =
                                             final_blob_path (image_dir c) (pdf_gcs_name c) page_num count,
                                           blob_data = image_buffer,
                                           blob_content_type = ''image/jpeg''\<rparr>))))))"

text \<open>
  Lines 99-144 for a reference that is kept: the call is recorded, the \<^verbatim>\<open>try\<close> body
  runs, \<^verbatim>\<open>except Exception\<close> (line 141) swallows an \<^verbatim>\<open>Exception\<close>, and the counter
  goes up after an upload (line 139). The second component is the exception that
  leaves the loop body, if any.
\<close>

definition process_kept :: "env \<Rightarrow> nat \<Rightarrow> int \<Rightarrow> state \<Rightarrow> state \<times> pyexc option" where
  "process_kept c page_num xr st =
     (let st1 = st\<lparr>events := events st @ [Extract_image page_num xr]\<rparr> in
      case extract_and_upload c page_num (image_count st) xr of
        Inl e \<Rightarrow> (st1, if is_Exception e then None else Some e)
      | Inr None \<Rightarrow> (st1, None)
      | Inr (Some b) \<Rightarrow>
          (st1\<lparr>uploaded := uploaded st1 @ [b], image_count := image_count st1 + 1\<rparr>, None))"

text \<open>Lines 83-144 for a reference whose rectangles are \<open>image_rects\<close>.\<close>

definition filter_and_process ::
  "env \<Rightarrow> nat \<Rightarrow> real \<Rightarrow> real \<Rightarrow> int set \<Rightarrow> int \<Rightarrow> rect list \<Rightarrow> state
     \<Rightarrow> int set \<times> state \<times> pyexc option" where
  "filter_and_process c page_num hl fl processed_xrefs xr image_rects st =
     (if skip_header_footer hl fl image_rects then
        (insert xr processed_xrefs,
         st\<lparr>skipped_header_footer := skipped_header_footer st + 1,
            events := events st @ [Header_footer_skip page_num xr]\<rparr>,
         None)
      else
        (case process_kept c page_num xr st of
           (st', x) \<Rightarrow> (insert xr processed_xrefs, st', x)))"

text \<open>
  Lines 70-144, the body of the loop over the image list. Line 71 skips a zero or
  already processed \<open>xref\<close>; lines 75-81 leave \<open>image_rects\<close> empty when
  \<^verbatim>\<open>get_image_rects\<close> raises an \<^verbatim>\<open>Exception\<close>.
\<close>

definition image_step ::
  "env \<Rightarrow> page \<Rightarrow> nat \<Rightarrow> real \<Rightarrow> real \<Rightarrow> int set \<Rightarrow> img_info \<Rightarrow> state
     \<Rightarrow> int set \<times> state \<times> pyexc option" where
  "image_step c p page_num hl fl processed_xrefs info st =
     (if xref info = 0 \<or> xref info \<in> processed_xrefs then (processed_xrefs, st, None)
      else
        (case get_image_rects p info of
           Inl e \<Rightarrow>
             if is_Exception e
             then filter_and_process c page_num hl fl processed_xrefs (xref info) [] st
             else (processed_xrefs, st, Some e)
         | Inr image_rects \<Rightarrow>
             filter_and_process c page_num hl fl processed_xrefs (xref info) image_rects st))"

text \<open>Lines 69-144, the loop over the image list of one page.\<close>

fun image_loop ::
  "env \<Rightarrow> page \<Rightarrow> nat \<Rightarrow> real \<Rightarrow> real \<Rightarrow> int set \<Rightarrow> img_info list \<Rightarrow> state
     \<Rightarrow> state \<times> pyexc option" where
  "image_loop c p page_num hl fl processed_xrefs [] st = (st, None)"
| "image_loop c p page_num hl fl processed_xrefs (info # rest) st =
     (case image_step c p page_num hl fl processed_xrefs info st of
        (processed', st', None) \<Rightarrow> image_loop c p page_num hl fl processed' rest st'
      | (processed', st', Some e) \<Rightarrow> (st', Some e))"

text \<open>
  Lines 50-144, the loop over the pages from index \<open>page_num\<close> on. A page that cannot be
  loaded raises out of the loop (there is no handler inside it); a page of height
  at most 0 is skipped (lines 53-55); a failing \<^verbatim>\<open>get_images\<close> skips the page when it
  raises an \<^verbatim>\<open>Exception\<close> (lines 61-65); \<open>processed_xrefs\<close> starts empty on every page
  (line 67).
\<close>

fun page_loop ::
  "env \<Rightarrow> real \<Rightarrow> real \<Rightarrow> nat \<Rightarrow> (pyexc + page) list \<Rightarrow> state \<Rightarrow> state \<times> pyexc option" where
  "page_loop c header_ratio footer_ratio page_num [] st = (st, None)"
| "page_loop c header_ratio footer_ratio page_num (Inl e # rest) st = (st, Some e)"
| "page_loop c header_ratio footer_ratio page_num (Inr p # rest) st =
     (if height p \<le> 0 then page_loop c header_ratio footer_ratio (page_num + 1) rest st
      else
        (case get_images p of
           Inl e \<Rightarrow>
             if is_Exception e
             then page_loop c header_ratio footer_ratio (page_num + 1) rest st
             else (st, Some e)
         | Inr image_list \<Rightarrow>
             (case image_loop c p page_num
                     (header_limit (height p) header_ratio)
                     (footer_limit (height p) footer_ratio) {} image_list st of
                (st', None) \<Rightarrow> page_loop c header_ratio footer_ratio (page_num + 1) rest st'
              | (st', Some e) \<Rightarrow> (st', Some e))))"

text \<open>
  The outcome of one call: the state reached, whether \<^verbatim>\<open>fitz.open\<close> returned a
  document, whether \<^verbatim>\<open>pdf_document.close()\<close> was called, and the exception that
  leaves the call (the handlers of lines 149-153 catch every \<^verbatim>\<open>Exception\<close>).
\<close>

record run =
  final :: state
  opened :: bool
  close_called :: bool
  propagated :: "pyexc option"

definition uncaught :: "pyexc option \<Rightarrow> pyexc option" where
  "uncaught x = (case x of None \<Rightarrow> None | Some e \<Rightarrow> if is_Exception e then None else Some e)"

text \<open>
  Lines 154-161: \<^verbatim>\<open>close\<close> is called when the document object is true; an
  \<^verbatim>\<open>Exception\<close> it raises is caught, anything else replaces the pending exception.
\<close>

definition finally_close :: "document \<Rightarrow> pyexc option \<Rightarrow> bool \<times> pyexc option" where
  "finally_close d pending =
     (if truthy d then
        (True, (case close d of
                  None \<Rightarrow> pending
                | Some e \<Rightarrow> if is_Exception e then pending else Some e))
      else (False, pending))"

definition extract_images_from_pdf ::
  "libraries \<Rightarrow> bytes \<Rightarrow> string \<Rightarrow> string \<Rightarrow> bucket \<Rightarrow> real \<Rightarrow> real \<Rightarrow> run" where
  "extract_images_from_pdf L pdf_stream gcs_name dir bucket_obj header_ratio footer_ratio =
     (let hr = valid_ratio header_ratio;
          fr = valid_ratio footer_ratio
      in case fitz_open L pdf_stream of
           Inl e \<Rightarrow>
             \<lparr>final = init_state, opened = False, close_called = False,
              propagated = uncaught (Some e)\<rparr>
         | Inr d \<Rightarrow>
             (case page_loop
                     \<lparr>libs = L, pdf_document = d, output_bucket_obj = bucket_obj,
                      pdf_gcs_name = gcs_name, image_dir = dir\<rparr>
                     hr fr 0 (pages d) init_state of
                (st, x) \<Rightarrow>
                  (case finally_close d (uncaught x) of
                     (called, y) \<Rightarrow>
                       \<lparr>final = st, opened = True, close_called = called, propagated = y\<rparr>)))"

subsection \<open>Modes of the image library, in the words of the specification\<close>

text \<open>
  The image library documents the modes \<^verbatim>\<open>RGBA\<close>, \<^verbatim>\<open>LA\<close> (grey with alpha), \<^verbatim>\<open>PA\<close>
  (palette with alpha) and the premultiplied \<^verbatim>\<open>RGBa\<close> and \<^verbatim>\<open>La\<close> as the ones with an
  alpha band, and \<^verbatim>\<open>P\<close> and \<^verbatim>\<open>PA\<close> as the ones with a palette. These two predicates
  are not part of the program; the conversion of lines 116-125 is compared with
  them.
\<close>

definition has_alpha_channel :: "string \<Rightarrow> bool" where
  "has_alpha_channel m = (m \<in> set [''RGBA'', ''LA'', ''PA'', ''RGBa'', ''La''])"

definition palette_indexed :: "string \<Rightarrow> bool" where
  "palette_indexed m = (m \<in> set [''P'', ''PA''])"

subsection \<open>What the uploads of a run are made from\<close>

definition is_digit :: "char \<Rightarrow> bool" where
  "is_digit ch = (ch \<in> set ''0123456789'')"

text \<open>Reference \<open>xr\<close> is in the image list of the page with index \<open>n\<close>.\<close>

definition listed :: "document \<Rightarrow> nat \<Rightarrow> int \<Rightarrow> bool" where
  "listed d n xr =
     (\<exists>p image_list. n < page_count d \<and> pages d ! n = Inr p \<and>
        get_images p = Inr image_list \<and> xr \<in> xref ` set image_list)"

text \<open>
  Blob \<open>b\<close> is what lines 101-137 upload for reference \<open>xr\<close> on the page with index \<open>n\<close>
  when the counter stands at \<open>k\<close>: the extracted bytes, decoded, converted and
  saved as JPEG with quality 85, under the path of line 133.
\<close>

definition written_from :: "env \<Rightarrow> nat \<Rightarrow> int \<Rightarrow> nat \<Rightarrow> blob \<Rightarrow> bool" where
  "written_from c n xr k b =
     (\<exists>bi image_bytes pil_image.
        extract_image (pdf_document c) xr = Inr (Some bi) \<and>
        image_entry bi = Some image_bytes \<and>
        Image_open (libs c) image_bytes = Inr pil_image \<and>
        Image_save (libs c) (convert_to_rgb pil_image) ''JPEG'' 85 = Inr (blob_data b) \<and>
        blob_path b = final_blob_path (image_dir c) (pdf_gcs_name c) n k \<and>
        blob_content_type b = ''image/jpeg'')"

text \<open>
  From state \<open>st\<close> to state \<open>st'\<close> blobs have only been appended, the counter has gone
  up by their number, and the \<open>j\<close>-th new blob was written with the counter at
  \<open>image_count st + j\<close> for a page and a reference that \<open>Q\<close> admits.
\<close>

definition uploads_between :: "env \<Rightarrow> (nat \<Rightarrow> int \<Rightarrow> bool) \<Rightarrow> state \<Rightarrow> state \<Rightarrow> bool" where
  "uploads_between c Q st st' =
     (\<exists>new. uploaded st' = uploaded st @ new \<and>
            image_count st' = image_count st + length new \<and>
            (\<forall>j<length new. \<exists>n xr. Q n xr \<and> written_from c n xr (image_count st + j) (new ! j)))"

section \<open>\<^verbatim>\<open>extract_images_from_pdf_gcs_trigger\<close>\<close>

text \<open>Lines 11-16, the configuration; a decimal literal denotes the nearest double.\<close>

definition OUTPUT_BUCKET_NAME :: string where
  "OUTPUT_BUCKET_NAME = ''sbi-image-sample''"

definition OUTPUT_IMAGE_DIR :: string where
  "OUTPUT_IMAGE_DIR = ''extracted-pdf-images''"

definition HEADER_RATIO :: real where
  "HEADER_RATIO = double 0.15"

definition FOOTER_RATIO :: real where
  "FOOTER_RATIO = double 0.15"

text \<open>
  The event: its \<^verbatim>\<open>id\<close> and \<^verbatim>\<open>type\<close> attributes (a CloudEvent always has both) and
  its \<^verbatim>\<open>data\<close> dictionary.
\<close>

record cloud_event =
  event_id :: string
  event_type :: string
  data :: "string \<rightharpoonup> string"

text \<open>
  The storage client: \<^verbatim>\<open>get_bucket(name)\<close> and
  \<^verbatim>\<open>bucket(bucket_name).blob(file_name).download_as_bytes(timeout=300)\<close>.
\<close>

record storage_client =
  get_bucket :: "string \<Rightarrow> pyexc + bucket"
  download_as_bytes :: "string \<Rightarrow> string \<Rightarrow> pyexc + bytes"

text \<open>Lines 193-205, the two checks before anything is downloaded.\<close>

datatype validation = Not_pdf | Own_output | Accepted

definition basic_validation :: "string \<Rightarrow> string \<Rightarrow> validation" where
  "basic_validation input_bucket_name input_file_name =
     (if input_file_name = [] \<or> \<not> endswith (lower input_file_name) ''.pdf'' then Not_pdf
      else if input_bucket_name = OUTPUT_BUCKET_NAME \<and>
              startswith input_file_name (strip ''/'' OUTPUT_IMAGE_DIR @ ''/'')
           then Own_output
      else Accepted)"

text \<open>
  How a call of the entry point ends: an early \<^verbatim>\<open>return\<close> of the validation
  (lines 197, 205), one of the handlers (lines 236-239 and 248-253), the end of the
  \<^verbatim>\<open>try\<close> after the extraction has returned (line 234), or an exception that no
  handler catches, with the run of the extraction if there was one.
\<close>

datatype trigger_result =
    Ignored validation
  | Missing_key
  | Bucket_not_found
  | Unexpected_error
  | File_not_found
  | Critical_failure
  | Processed run
  | Raised pyexc "run option"

text \<open>Lines 248-253, the handlers of the outer \<^verbatim>\<open>try\<close>.\<close>

definition outer_handlers :: "pyexc \<Rightarrow> run option \<Rightarrow> trigger_result" where
  "outer_handlers e r =
     (if e = KeyError then Missing_key
      else if e = NotFound then Bucket_not_found
      else if is_Exception e then Unexpected_error
      else Raised e r)"

text \<open>Lines 236-239, the handlers of the inner \<^verbatim>\<open>try\<close>; what they let through reaches the outer ones.\<close>

definition inner_handlers :: "pyexc \<Rightarrow> run option \<Rightarrow> trigger_result" where
  "inner_handlers e r =
     (if e = NotFound then File_not_found
      else if is_Exception e then Critical_failure
      else outer_handlers e r)"

text \<open>Lines 207-246, for an event that passed the validation.\<close>

definition download_and_process ::
  "libraries \<Rightarrow> pyexc + storage_client \<Rightarrow> string \<Rightarrow> string \<Rightarrow> trigger_result" where
  "download_and_process L client input_bucket_name input_file_name =
     (case client of
        Inl e \<Rightarrow> outer_handlers e None
      | Inr storage \<Rightarrow>
          (case get_bucket storage OUTPUT_BUCKET_NAME of
             Inl e \<Rightarrow> outer_handlers e None
           | Inr bucket_obj \<Rightarrow>
               (case download_as_bytes storage input_bucket_name input_file_name of
                  Inl e \<Rightarrow> inner_handlers e None
                | Inr pdf_bytes \<Rightarrow>
                    (let r = extract_images_from_pdf L pdf_bytes input_file_name
                               OUTPUT_IMAGE_DIR bucket_obj HEADER_RATIO FOOTER_RATIO
                     in case propagated r of
                          None \<Rightarrow> Processed r
                        | Some e \<Rightarrow> inner_handlers e (Some r)))))"

text \<open>
  Lines 173-255. The five entries of \<^verbatim>\<open>data\<close> are read first (lines 179-183); a
  missing one raises \<^verbatim>\<open>KeyError\<close>, which line 248 catches. \<open>client\<close> is what
  \<^verbatim>\<open>storage.Client()\<close> gives.
\<close>

definition extract_images_from_pdf_gcs_trigger ::
  "libraries \<Rightarrow> pyexc + storage_client \<Rightarrow> cloud_event \<Rightarrow> trigger_result" where
  "extract_images_from_pdf_gcs_trigger L client ev =
     (case data ev ''bucket'' of
        None \<Rightarrow> outer_handlers KeyError None
      | Some input_bucket_name \<Rightarrow>
          (case data ev ''name'' of
             None \<Rightarrow> outer_handlers KeyError None
           | Some input_file_name \<Rightarrow>
               if data ev ''metageneration'' = None \<or> data ev ''timeCreated'' = None \<or>
                  data ev ''updated'' = None
               then outer_handlers KeyError None
               else
                 (case basic_validation input_bucket_name input_file_name of
                    Accepted \<Rightarrow> download_and_process L client input_bucket_name input_file_name
                  | Not_pdf \<Rightarrow> Ignored Not_pdf
                  | Own_output \<Rightarrow> Ignored Own_output)))"

section \<open>A test document\<close>

text \<open>
  Three pages of height 1000. Page 1 is the scenario of the specification: reference 5
  lies in the header zone (top 0, bottom 50), reference 6 in the content band (top 400,
  bottom 600). The image list of page 2 cannot be read. Page 3 lists the references
  0, 7, 7, 8, 9 and 9: the rectangles of 7 cannot be read, 8 has none, 9 lies in the
  content band; the image of 8 cannot be extracted.
\<close>

definition rect_in_header :: rect where
  "rect_in_header = \<lparr>x0 = 0, y0 = 0, x1 = 100, y1 = 50\<rparr>"

definition rect_in_body :: rect where
  "rect_in_body = \<lparr>x0 = 0, y0 = 400, x1 = 100, y1 = 600\<rparr>"

definition info :: "int \<Rightarrow> img_info" where
  "info x = \<lparr>xref = x, img_name = ''Im''\<rparr>"

definition test_page1 :: page where
  "test_page1 =
     \<lparr>height = 1000,
      get_images = Inr [info 5, info 6],
      get_image_rects = (\<lambda>i. if xref i = 5 then Inr [rect_in_header] else Inr [rect_in_body])\<rparr>"

definition test_page2 :: page where
  "test_page2 =
     \<lparr>height = 1000, get_images = Inl OtherException, get_image_rects = (\<lambda>i. Inr [])\<rparr>"

definition test_page3 :: page where
  "test_page3 =
     \<lparr>height = 1000,
      get_images = Inr [info 0, info 7, info 7, info 8, info 9, info 9],
      get_image_rects =
        (\<lambda>i. if xref i = 7 then Inl RuntimeError
             else if xref i = 8 then Inr []
             else Inr [rect_in_body])\<rparr>"

definition test_document :: document where
  "test_document =
     \<lparr>pages = [Inr test_page1, Inr test_page2, Inr test_page3],
      extract_image =
        (\<lambda>x. if x = 8 then Inl RuntimeError
             else Inr (Some \<lparr>image_entry = Some [1, 2, 3], ext_entry = Some ''png''\<rparr>)),
      close = None\<rparr>"

definition empty_document :: document where
  "empty_document = \<lparr>pages = [], extract_image = (\<lambda>x. Inr None), close = None\<rparr>"

text \<open>
  The libraries of the test: the empty stream is no PDF, the stream \<open>[0]\<close> is a PDF
  without pages, every other stream is the test document; every image decodes as
  RGBA and encodes to two bytes.
\<close>

definition test_libraries :: libraries where
  "test_libraries =
     \<lparr>fitz_open =
        (\<lambda>s. if s = [] then Inl RuntimeError
             else if s = [0] then Inr empty_document
             else Inr test_document),
      Image_open = (\<lambda>b. Inr (Opened ''RGBA'' (10, 10) b)),
      Image_save = (\<lambda>im fmt q. Inr [255, 216])\<rparr>"

definition test_bucket :: bucket where
  "test_bucket = \<lparr>bucket_name = ''sbi-image-sample'', upload_from_file = (\<lambda>p d t. None)\<rparr>"

text \<open>An event for object \<open>nm\<close> of bucket \<open>b\<close>, and a storage client for the test.\<close>

definition test_event :: "string \<Rightarrow> string \<Rightarrow> cloud_event" where
  "test_event b nm =
     \<lparr>event_id = ''1'', event_type = ''google.cloud.storage.object.v1.finalized'',
      data = map_of [(''bucket'', b), (''name'', nm), (''metageneration'', ''1''),
                     (''timeCreated'', ''t0''), (''updated'', ''t0'')]\<rparr>"

definition test_client :: "pyexc + storage_client" where
  "test_client =
     Inr \<lparr>get_bucket = (\<lambda>n. if n = ''sbi-image-sample'' then Inr test_bucket else Inl NotFound),
          download_as_bytes = (\<lambda>b nm. if nm = ''report.PDF'' then Inr [1] else Inl NotFound)\<rparr>"

definition test_env :: env where
  "test_env =
     \<lparr>libs = test_libraries, pdf_document = test_document, output_bucket_obj = test_bucket,
      pdf_gcs_name = ''in/report.pdf'', image_dir = ''out''\<rparr>"

section \<open>Rounding to doubles\<close>

text \<open>The equations by which the rounding is evaluated on numerals.\<close>

lemmas double_eval = double_def round_pos_def ulp_exponent_def floor_log2_def round_half_even_def
  bit_length.simps power_int_minus

text \<open>
  Values that Python computes, for comparison: \<^verbatim>\<open>0.15\<close> and \<^verbatim>\<open>0.10\<close> as doubles,
  \<^verbatim>\<open>100.0 * 0.57\<close> is \<^verbatim>\<open>56.99999999999999\<close>, \<^verbatim>\<open>0.1 + 0.2\<close> is \<^verbatim>\<open>0.30000000000000004\<close>,
  \<^verbatim>\<open>0.49999999999999994 + 0.5\<close> is \<^verbatim>\<open>1.0\<close>, and on a page of height 792 with both
  ratios 0.15 the limits are \<^verbatim>\<open>118.8\<close> and \<^verbatim>\<open>673.1999999999999\<close>.
\<close>

lemma double_literals:
  "double 0.15 = 5404319552844595 / 2 ^ 55"
  "double 0.10 = 3602879701896397 / 2 ^ 55"
  "double 0.9 = 8106479329266893 / 2 ^ 53"
  "double 0.57 = 5134103575202365 / 2 ^ 53"
  by (simp_all add: double_eval)

lemma double_examples:
  "double (100 * double 0.57) = 8022036836253695 / 2 ^ 47"
  "double (double 0.1 + double 0.2) = 1351079888211149 / 2 ^ 52"
  "double (9007199254740991 / 2 ^ 54 + 1 / 2) = 1"
  by (simp_all add: double_eval)

lemma letter_page_limits:
  "header_limit 792 (valid_ratio (double 0.15)) = 8359806808306483 / 2 ^ 46"
  "footer_limit 792 (valid_ratio (double 0.15)) = 5921529822550425 / 2 ^ 43"
  "header_limit 792 (valid_ratio (double 0.9)) = 6269855106229863 / 2 ^ 43"
  by (simp_all add: header_limit_def footer_limit_def valid_ratio_def double_eval)

lemma test_limits:
  "valid_ratio 0.1 = 0.1"
  "header_limit 1000 0.1 = 100"
  "footer_limit 1000 0.1 = 900"
  "header_limit 1000 (double 0.1) = 100"
  "footer_limit 1000 (double 0.1) = 900"
  by (simp_all add: header_limit_def footer_limit_def valid_ratio_def double_eval)

text \<open>The rounding is monotone: it never reverses the order of two numbers.\<close>

lemma bit_length_bounds:
  "0 < n \<Longrightarrow> 2 ^ (bit_length n - 1) \<le> n \<and> n < 2 ^ bit_length n"
proof (induction n rule: bit_length.induct)
  case (1 n)
  show ?case
  proof (cases "n div 2 = 0")
    case True
    with "1.prems" have "n = 1" by (simp add: div_eq_0_iff) 
    then show ?thesis by (simp add: bit_length.simps)
  next
    case False
    with "1.IH" "1.prems" have ih: "2 ^ (bit_length (n div 2) - 1) \<le> n div 2"
      "n div 2 < 2 ^ bit_length (n div 2)"
      by simp_all
    have pos: "0 < bit_length (n div 2)"
      using False by (simp add: bit_length.simps [of "n div 2"])
    have b: "bit_length n = Suc (bit_length (n div 2))"
      using "1.prems" by (simp add: bit_length.simps [of n])
    have "2 ^ (bit_length n - 1) = 2 * 2 ^ (bit_length (n div 2) - 1)"
      using pos b by (cases "bit_length (n div 2)") simp_all
    also have "\<dots> \<le> 2 * (n div 2)" using ih(1) by simp
    also have "\<dots> \<le> n" by simp
    finally have lo: "2 ^ (bit_length n - 1) \<le> n" .
    have "n < 2 * (n div 2) + 2" by presburger
    also have "\<dots> \<le> 2 * 2 ^ bit_length (n div 2)" using ih(2) by simp
    finally have "n < 2 ^ bit_length n" using b by simp
    with lo show ?thesis by simp
  qed
qed

lemma bit_length_pos: "0 < n \<Longrightarrow> 0 < bit_length n"
  by (simp add: bit_length.simps [of n])

lemma floor_log2_bounds:
  assumes "0 < x"
  shows "2 powi floor_log2 x \<le> x \<and> x < 2 powi (floor_log2 x + 1)"
proof (cases "1 \<le> x")
  case True
  let ?n = "nat \<lfloor>x\<rfloor>"
  have n: "0 < ?n" using True by simp
  from bit_length_bounds [OF n] have b: "2 ^ (bit_length ?n - 1) \<le> ?n" "?n < 2 ^ bit_length ?n"
    by simp_all
  have fl: "floor_log2 x = int (bit_length ?n - 1)"
    using True bit_length_pos [OF n] by (simp add: floor_log2_def)
  have "(2::real) ^ (bit_length ?n - 1) \<le> real ?n"
    using b(1) by (metis of_nat_le_iff of_nat_numeral of_nat_power)
  also have "real ?n \<le> x" using True by simp
  finally have lo: "2 powi floor_log2 x \<le> x" by (simp add: fl)
  have "x < real ?n + 1" using True by linarith
  also have "real ?n + 1 \<le> 2 ^ bit_length ?n"
    using b(2) by (metis Suc_leI of_nat_Suc of_nat_le_iff of_nat_numeral of_nat_power add.commute plus_1_eq_Suc)
  finally have "x < 2 ^ bit_length ?n" .
  moreover have "floor_log2 x + 1 = int (bit_length ?n)"
    using fl bit_length_pos [OF n] by simp
  ultimately have "x < 2 powi (floor_log2 x + 1)" by simp
  with lo show ?thesis by simp
next
  case False
  then have x1: "x < 1" by simp
  let ?n = "nat (\<lceil>1 / x\<rceil> - 1)"
  have gt: "1 < 1 / x" using assms x1 by simp
  then have c2: "2 \<le> \<lceil>1 / x\<rceil>" by linarith
  then have n: "0 < ?n" by simp
  from bit_length_bounds [OF n] have b: "2 ^ (bit_length ?n - 1) \<le> ?n" "?n < 2 ^ bit_length ?n"
    by simp_all
  have fl: "floor_log2 x = - int (bit_length ?n)"
    using x1 by (simp add: floor_log2_def)
  have "0 \<le> \<lceil>1 / x\<rceil> - 1" using c2 by linarith
  then have "real ?n = of_int (\<lceil>1 / x\<rceil> - 1)" by (rule of_nat_nat)
  then have rn: "real ?n = of_int \<lceil>1 / x\<rceil> - 1" by simp
  have "1 / x \<le> real ?n + 1" using rn by simp
  also have "real ?n + 1 \<le> 2 ^ bit_length ?n"
    using b(2) by (metis Suc_leI of_nat_Suc of_nat_le_iff of_nat_numeral of_nat_power add.commute plus_1_eq_Suc)
  finally have "1 / x \<le> 2 ^ bit_length ?n" .
  then have "1 / 2 ^ bit_length ?n \<le> x"
    using assms by (simp add: field_simps)
  then have lo: "2 powi floor_log2 x \<le> x"
    by (simp add: fl power_int_minus_divide)
  have "(2::real) ^ (bit_length ?n - 1) \<le> real ?n"
    using b(1) by (metis of_nat_le_iff of_nat_numeral of_nat_power)
  also have "real ?n < 1 / x" using rn by linarith
  finally have "2 ^ (bit_length ?n - 1) < 1 / x" .
  then have "x < 1 / 2 ^ (bit_length ?n - 1)"
    using assms by (simp add: field_simps)
  moreover have "floor_log2 x + 1 = - int (bit_length ?n - 1)"
    using fl bit_length_pos [OF n] by simp
  ultimately have "x < 2 powi (floor_log2 x + 1)"
    by (simp add: power_int_minus_divide)
  with lo show ?thesis by simp
qed

lemma powi_two_less_cancel: "(2::real) powi a < 2 powi b \<Longrightarrow> a < b"
proof (rule ccontr)
  assume lt: "(2::real) powi a < 2 powi b" and "\<not> a < b"
  then have "b \<le> a" by simp
  then have "(2::real) powi b \<le> 2 powi a" by (rule power_int_increasing) simp
  with lt show False by simp
qed

lemma floor_log2_mono:
  assumes "0 < x" and "x \<le> y"
  shows "floor_log2 x \<le> floor_log2 y"
proof -
  have "2 powi floor_log2 x \<le> x" using floor_log2_bounds [OF assms(1)] by simp
  also have "x \<le> y" by fact
  also have "y < 2 powi (floor_log2 y + 1)" using floor_log2_bounds [of y] assms by simp
  finally have "floor_log2 x < floor_log2 y + 1" by (rule powi_two_less_cancel)
  then show ?thesis by simp
qed

lemma round_half_even_mono: "x \<le> y \<Longrightarrow> round_half_even x \<le> round_half_even y"
proof -
  assume le: "x \<le> y"
  have fm: "\<lfloor>x\<rfloor> \<le> \<lfloor>y\<rfloor>" using le by (rule floor_mono)
  show ?thesis
  proof (cases "\<lfloor>x\<rfloor> = \<lfloor>y\<rfloor>")
    case True
    with le show ?thesis unfolding round_half_even_def by (auto simp: True)
  next
    case False
    with fm have "\<lfloor>x\<rfloor> + 1 \<le> \<lfloor>y\<rfloor>" by simp
    moreover have "round_half_even x \<le> \<lfloor>x\<rfloor> + 1" by (simp add: round_half_even_def)
    moreover have "\<lfloor>y\<rfloor> \<le> round_half_even y" by (simp add: round_half_even_def)
    ultimately show ?thesis by linarith
  qed
qed

lemma round_half_even_of_int [simp]: "round_half_even (of_int k) = k"
  by (simp add: round_half_even_def)

lemma round_half_even_ge: "of_int k \<le> x \<Longrightarrow> k \<le> round_half_even x"
  using round_half_even_mono [of "of_int k" x] by simp

lemma round_half_even_le: "x \<le> of_int k \<Longrightarrow> round_half_even x \<le> k"
  using round_half_even_mono [of x "of_int k"] by simp

lemma ulp_exponent_mono:
  "0 < x \<Longrightarrow> x \<le> y \<Longrightarrow> ulp_exponent x \<le> ulp_exponent y"
  using floor_log2_mono [of x y] by (simp add: ulp_exponent_def)

lemma powi_two_nonneg_int: "0 \<le> k \<Longrightarrow> (2::real) powi k = of_int (2 ^ nat k)"
  by (simp add: power_int_def)

lemma round_pos_mono:
  assumes "0 < x" and "x \<le> y"
  shows "round_pos x \<le> round_pos y"
proof -
  let ?u = "ulp_exponent x" and ?v = "ulp_exponent y"
  have y: "0 < y" using assms by simp
  have uv: "?u \<le> ?v" using assms by (rule ulp_exponent_mono)
  show ?thesis
  proof (cases "?u = ?v")
    case True
    have "x / 2 powi ?u \<le> y / 2 powi ?u"
      using assms(2) by (simp add: divide_right_mono)
    then have "round_half_even (x / 2 powi ?u) \<le> round_half_even (y / 2 powi ?u)"
      by (rule round_half_even_mono)
    then have "of_int (round_half_even (x / 2 powi ?u)) * 2 powi ?u
        \<le> (of_int (round_half_even (y / 2 powi ?u)) :: real) * 2 powi ?u"
      by (simp add: mult_right_mono)
    then show ?thesis by (simp add: round_pos_def True)
  next
    case False
    with uv have lt: "?u < ?v" by simp
    then have v: "?v = floor_log2 y - 52" by (auto simp: ulp_exponent_def)
    have "floor_log2 x - 52 \<le> ?u" by (simp add: ulp_exponent_def)
    with lt v have l: "floor_log2 x + 1 \<le> floor_log2 y" by simp
    let ?B = "(2::real) powi floor_log2 y"
    \<comment> \<open>the rounding of \<open>y\<close> stays above the lower end of its binade\<close>
    define c :: int where "c = 2 ^ 52"
    have cB: "(of_int c :: real) * 2 powi ?v = ?B"
    proof -
      have "(of_int c :: real) = 2 powi 52" by (simp add: c_def)
      then have "(of_int c :: real) * 2 powi ?v = 2 powi 52 * 2 powi (floor_log2 y - 52)"
        by (simp only: v)
      also have "\<dots> = 2 powi (52 + (floor_log2 y - 52))"
        by (rule power_int_add [symmetric]) simp
      finally show ?thesis by simp
    qed
    have "?B \<le> y" using floor_log2_bounds [OF y] by simp
    then have "?B / 2 powi ?v \<le> y / 2 powi ?v"
      by (intro divide_right_mono) simp_all
    moreover have "?B / 2 powi ?v = of_int c"
      using cB by (simp add: field_simps)
    ultimately have "of_int c \<le> y / 2 powi ?v" by (simp only:)
    then have "c \<le> round_half_even (y / 2 powi ?v)" by (rule round_half_even_ge)
    then have "(of_int c :: real) \<le> of_int (round_half_even (y / 2 powi ?v))"
      by (simp only: of_int_le_iff)
    then have "(of_int c :: real) * 2 powi ?v \<le> of_int (round_half_even (y / 2 powi ?v)) * 2 powi ?v"
      by (intro mult_right_mono) simp_all
    then have hi: "?B \<le> round_pos y" by (simp only: cB round_pos_def)
    \<comment> \<open>the rounding of \<open>x\<close> stays below it\<close>
    have d: "0 \<le> floor_log2 y - ?u" using lt v by simp
    have "x \<le> ?B"
    proof -
      have "x < 2 powi (floor_log2 x + 1)" using floor_log2_bounds [OF assms(1)] by simp
      also have "\<dots> \<le> ?B" using l by (simp add: power_int_increasing)
      finally show ?thesis by simp
    qed
    then have "x / 2 powi ?u \<le> ?B / 2 powi ?u" by (simp add: divide_right_mono)
    also have "?B / 2 powi ?u = 2 powi (floor_log2 y - ?u)" by (simp add: power_int_diff)
    also have "\<dots> = of_int (2 ^ nat (floor_log2 y - ?u))" using d by (rule powi_two_nonneg_int)
    finally have "round_half_even (x / 2 powi ?u) \<le> 2 ^ nat (floor_log2 y - ?u)"
      by (rule round_half_even_le)
    then have "(of_int (round_half_even (x / 2 powi ?u)) :: real) * 2 powi ?u
        \<le> of_int (2 ^ nat (floor_log2 y - ?u)) * 2 powi ?u"
      by (intro mult_right_mono) (simp_all del: of_int_power)
    also have "(of_int (2 ^ nat (floor_log2 y - ?u)) :: real) = 2 powi (floor_log2 y - ?u)"
      using d by (simp add: powi_two_nonneg_int)
    also have "2 powi (floor_log2 y - ?u) * 2 powi ?u = ?B"
      by (simp add: power_int_diff)
    finally have "round_pos x \<le> ?B" by (simp add: round_pos_def)
    with hi show ?thesis by simp
  qed
qed

lemma round_pos_nonneg: "0 < x \<Longrightarrow> 0 \<le> round_pos x"
proof -
  assume "0 < x"
  then have "0 \<le> x / 2 powi ulp_exponent x" by simp
  then have "0 \<le> round_half_even (x / 2 powi ulp_exponent x)"
    using round_half_even_ge [of 0] by simp
  then show ?thesis by (simp add: round_pos_def)
qed

lemma double_nonneg: "0 \<le> x \<Longrightarrow> 0 \<le> double x"
  by (simp add: double_def round_pos_nonneg)

lemma double_mono_nonneg:
  assumes "0 \<le> x" and "x \<le> y"
  shows "double x \<le> double y"
proof (cases "x = 0")
  case True
  then show ?thesis using assms double_nonneg [of y] by (simp add: double_def)
next
  case False
  with assms have "0 < x" "0 < y" by simp_all
  then show ?thesis using assms(2) by (simp add: double_def round_pos_mono)
qed

section \<open>The header/footer filter\<close>

lemma rects_loop_iff:
  "rects_loop hl fl rs \<longleftrightarrow> (\<forall>r\<in>set rs. y1 r \<le> hl \<or> y0 r \<ge> fl)"
  by (induction rs) auto

lemma skip_header_footer_iff:
  "skip_header_footer hl fl rs \<longleftrightarrow> rs \<noteq> [] \<and> (\<forall>r\<in>set rs. y1 r \<le> hl \<or> y0 r \<ge> fl)"
  by (auto simp: skip_header_footer_def is_potentially_header_footer_def rects_loop_iff)

lemma image_step_with_rects:
  assumes "xref i \<noteq> 0" and "xref i \<notin> P" and "get_image_rects p i = Inr rs"
  shows "image_step c p n hl fl P i st = filter_and_process c n hl fl P (xref i) rs st"
  using assms by (simp add: image_step_def)

lemma image_step_rects_error:
  assumes "xref i \<noteq> 0" and "xref i \<notin> P" and "get_image_rects p i = Inl e" and "is_Exception e"
  shows "image_step c p n hl fl P i st = filter_and_process c n hl fl P (xref i) [] st"
  using assms by (simp add: image_step_def)

lemma process_kept_events:
  "events (fst (process_kept c n xr st)) = events st @ [Extract_image n xr]"
  by (simp add: process_kept_def Let_def split: sum.splits option.splits)

text \<open>
  Claim C1. On a page of positive height \<open>H\<close>, with the ratios \<open>hr\<close> and \<open>fr\<close> as
  validated, the limits are the doubles the program computes: \<open>H * hr\<close> rounded, and
  \<open>H * (1 - fr)\<close> with the difference and the product rounded. A reference that is
  neither zero nor already processed and has at least one placement rectangle is
  classified as header/footer-only exactly when every rectangle has its bottom edge
  at or above the header limit or its top edge at or below the footer limit. The loop
  body then counts the skip and does not extract; if one rectangle violates both
  conditions, the reference is kept and goes on to the extraction. The loop over the
  image list of the page runs with these limits.
\<close>

theorem header_footer_filter_all_rects:
  assumes "0 < height p"
    and "get_image_rects p i = Inr image_rects" and "image_rects \<noteq> []"
    and "xref i \<noteq> 0" and "xref i \<notin> processed_xrefs"
  shows "(skip_header_footer (header_limit (height p) (valid_ratio hr))
            (footer_limit (height p) (valid_ratio fr)) image_rects
          \<longleftrightarrow> (\<forall>r\<in>set image_rects. y1 r \<le> double (height p * valid_ratio hr)
                                   \<or> y0 r \<ge> double (height p * double (1 - valid_ratio fr))))
       \<and> image_step c p n (header_limit (height p) (valid_ratio hr))
            (footer_limit (height p) (valid_ratio fr)) processed_xrefs i st =
          (if \<forall>r\<in>set image_rects. y1 r \<le> double (height p * valid_ratio hr)
                                   \<or> y0 r \<ge> double (height p * double (1 - valid_ratio fr))
           then (insert (xref i) processed_xrefs,
                 st\<lparr>skipped_header_footer := skipped_header_footer st + 1,
                    events := events st @ [Header_footer_skip n (xref i)]\<rparr>,
                 None)
           else (case process_kept c n (xref i) st of
                   (st', x) \<Rightarrow> (insert (xref i) processed_xrefs, st', x)))
       \<and> (\<forall>image_list rest st0.
            get_images p = Inr image_list \<longrightarrow>
            page_loop c (valid_ratio hr) (valid_ratio fr) n (Inr p # rest) st0 =
              (case image_loop c p n (header_limit (height p) (valid_ratio hr))
                      (footer_limit (height p) (valid_ratio fr)) {} image_list st0 of
                 (st', None) \<Rightarrow> page_loop c (valid_ratio hr) (valid_ratio fr) (n + 1) rest st'
               | (st', Some e) \<Rightarrow> (st', Some e)))"
proof -
  let ?hl = "header_limit (height p) (valid_ratio hr)"
  let ?fl = "footer_limit (height p) (valid_ratio fr)"
  let ?all = "\<forall>r\<in>set image_rects. y1 r \<le> double (height p * valid_ratio hr)
                                   \<or> y0 r \<ge> double (height p * double (1 - valid_ratio fr))"
  have cls: "skip_header_footer ?hl ?fl image_rects \<longleftrightarrow> ?all"
    using assms(3) by (simp add: skip_header_footer_iff header_limit_def footer_limit_def)
  have e: "image_step c p n ?hl ?fl processed_xrefs i st =
          filter_and_process c n ?hl ?fl processed_xrefs (xref i) image_rects st"
    using assms by (simp add: image_step_with_rects)
  have step: "image_step c p n ?hl ?fl processed_xrefs i st =
          (if ?all
           then (insert (xref i) processed_xrefs,
                 st\<lparr>skipped_header_footer := skipped_header_footer st + 1,
                    events := events st @ [Header_footer_skip n (xref i)]\<rparr>,
                 None)
           else (case process_kept c n (xref i) st of
                   (st', x) \<Rightarrow> (insert (xref i) processed_xrefs, st', x)))"
  proof (cases ?all)
    case True
    then have "skip_header_footer ?hl ?fl image_rects" using cls by blast
    then show ?thesis unfolding e filter_and_process_def using True by auto
  next
    case False
    then have "\<not> skip_header_footer ?hl ?fl image_rects" using cls by blast
    then show ?thesis unfolding e filter_and_process_def using False by auto
  qed
  have page: "page_loop c (valid_ratio hr) (valid_ratio fr) n (Inr p # rest) st0 =
      (case image_loop c p n ?hl ?fl {} image_list st0 of
         (st', None) \<Rightarrow> page_loop c (valid_ratio hr) (valid_ratio fr) (n + 1) rest st'
       | (st', Some e) \<Rightarrow> (st', Some e))"
    if "get_images p = Inr image_list" for image_list rest st0
    using that assms(1) by (simp split: prod.splits option.splits)
  from cls step page show ?thesis by blast
qed

text \<open>
  On a page of height 792 with both ratios 0.15 the footer limit is the double
  \<^verbatim>\<open>673.1999999999999\<close>: a rectangle whose top edge is that double is in the footer
  zone and the reference is skipped; a rectangle with top edge 673 is not.
\<close>

theorem header_footer_filter_all_rects_witness:
  "image_step test_env
      (test_page1\<lparr>height := 792,
         get_image_rects := \<lambda>i. Inr [\<lparr>x0 = 0, y0 = 5921529822550425 / 2 ^ 43, x1 = 100, y1 = 700\<rparr>]\<rparr>)
      0 (header_limit 792 (valid_ratio (double 0.15))) (footer_limit 792 (valid_ratio (double 0.15)))
      {} (info 5) init_state =
     ({5}, init_state\<lparr>skipped_header_footer := 1, events := [Header_footer_skip 0 5]\<rparr>, None)
   \<and> \<not> skip_header_footer (header_limit 792 (valid_ratio (double 0.15)))
        (footer_limit 792 (valid_ratio (double 0.15)))
        [\<lparr>x0 = 0, y0 = 673, x1 = 100, y1 = 700\<rparr>]"
proof -
  let ?r1 = "\<lparr>x0 = 0, y0 = 5921529822550425 / 2 ^ 43, x1 = 100, y1 = 700\<rparr> :: rect"
  let ?r2 = "\<lparr>x0 = 0, y0 = 673, x1 = 100, y1 = 700\<rparr> :: rect"
  let ?p1 = "test_page1\<lparr>height := 792, get_image_rects := \<lambda>i. Inr [?r1]\<rparr>"
  let ?p2 = "test_page1\<lparr>height := 792, get_image_rects := \<lambda>i. Inr [?r2]\<rparr>"
  have a: "0 < height ?p1" "get_image_rects ?p1 (info 5) = Inr [?r1]" "[?r1] \<noteq> []"
    and b: "0 < height ?p2" "get_image_rects ?p2 (info 5) = Inr [?r2]" "[?r2] \<noteq> []"
    and x: "xref (info 5) \<noteq> 0" "xref (info 5) \<notin> {}"
    by (simp_all add: info_def)
  have h: "height ?p1 = 792" "height ?p2 = 792" by simp_all
  have l: "double (792 * valid_ratio (double 0.15)) = 8359806808306483 / 2 ^ 46"
    "double (792 * double (1 - valid_ratio (double 0.15))) = 5921529822550425 / 2 ^ 43"
    using letter_page_limits(1,2) by (simp_all add: header_limit_def footer_limit_def)
  note t1 = header_footer_filter_all_rects [OF a x, of "double 0.15" "double 0.15" test_env 0 init_state]
  note t2 = header_footer_filter_all_rects [OF b x, of "double 0.15" "double 0.15" test_env 0 init_state]
  from t1 have "image_step test_env ?p1 0 (header_limit 792 (valid_ratio (double 0.15)))
      (footer_limit 792 (valid_ratio (double 0.15))) {} (info 5) init_state =
     ({5}, init_state\<lparr>skipped_header_footer := 1, events := [Header_footer_skip 0 5]\<rparr>, None)"
    unfolding h l by (simp add: info_def init_state_def)
  moreover from t2 have "\<not> skip_header_footer (header_limit 792 (valid_ratio (double 0.15)))
        (footer_limit 792 (valid_ratio (double 0.15))) [?r2]"
    unfolding h l by simp
  ultimately show ?thesis by simp
qed

text \<open>
  Claim C6. A reference whose placement rectangles cannot be retrieved (the list is
  empty, or \<^verbatim>\<open>get_image_rects\<close> raises an error) is never classified as
  header/footer-only: the skip counter stays as it is and the reference goes on to
  the extraction call.
\<close>

theorem no_rects_keeps_reference:
  assumes "xref i \<noteq> 0" and "xref i \<notin> processed_xrefs"
    and "get_image_rects p i = Inr [] \<or> (\<exists>e. get_image_rects p i = Inl e \<and> is_Exception e)"
  shows "\<not> skip_header_footer hl fl [] 
       \<and> image_step c p n hl fl processed_xrefs i st =
          (case process_kept c n (xref i) st of
             (st', x) \<Rightarrow> (insert (xref i) processed_xrefs, st', x))
       \<and> events (fst (snd (image_step c p n hl fl processed_xrefs i st))) =
          events st @ [Extract_image n (xref i)]
       \<and> skipped_header_footer (fst (snd (image_step c p n hl fl processed_xrefs i st))) =
          skipped_header_footer st"
proof -
  have "image_step c p n hl fl processed_xrefs i st =
          filter_and_process c n hl fl processed_xrefs (xref i) [] st"
    using assms(3)
  proof
    assume "get_image_rects p i = Inr []"
    then show ?thesis using assms(1,2) by (rule_tac image_step_with_rects)
  next
    assume "\<exists>e. get_image_rects p i = Inl e \<and> is_Exception e"
    then obtain e where "get_image_rects p i = Inl e" "is_Exception e" by blast
    then show ?thesis using assms(1,2) by (simp add: image_step_rects_error)
  qed
  moreover have "\<not> skip_header_footer hl fl []"
    by (simp add: skip_header_footer_def)
  moreover have "skipped_header_footer (fst (process_kept c n (xref i) st)) = skipped_header_footer st"
    by (simp add: process_kept_def Let_def split: sum.splits option.splits)
  ultimately show ?thesis
    using process_kept_events [of c n "xref i" st]
    by (simp add: filter_and_process_def split: prod.splits)
qed

theorem no_rects_keeps_reference_witness:
  "events (fst (snd (image_step test_env test_page3 2 100 900 {} (info 7) init_state))) =
     [Extract_image 2 7]
   \<and> skipped_header_footer (fst (snd (image_step test_env test_page3 2 100 900 {} (info 8) init_state))) = 0"
proof -
  have a: "xref (info 7) \<noteq> 0" "xref (info 7) \<notin> {}"
     "get_image_rects test_page3 (info 7) = Inr [] \<or>
        (\<exists>e. get_image_rects test_page3 (info 7) = Inl e \<and> is_Exception e)"
    by (simp_all add: test_page3_def info_def is_Exception_def)
  have b: "xref (info 8) \<noteq> 0" "xref (info 8) \<notin> {}"
     "get_image_rects test_page3 (info 8) = Inr [] \<or>
        (\<exists>e. get_image_rects test_page3 (info 8) = Inl e \<and> is_Exception e)"
    by (simp_all add: test_page3_def info_def is_Exception_def)
  have e7: "events (fst (snd (image_step test_env test_page3 2 100 900 {} (info 7) init_state))) =
      events init_state @ [Extract_image 2 (xref (info 7))]"
    using no_rects_keeps_reference [OF a, of 100 900 test_env 2 init_state] by blast
  have s8: "skipped_header_footer (fst (snd (image_step test_env test_page3 2 100 900 {} (info 8) init_state))) =
      skipped_header_footer init_state"
    using no_rects_keeps_reference [OF b, of 100 900 test_env 2 init_state] by blast
  show ?thesis
    using e7 s8 by (simp add: init_state_def info_def)
qed

lemma valid_ratio_id: "0 \<le> r \<Longrightarrow> r < 1 \<Longrightarrow> valid_ratio r = r"
  by (simp add: valid_ratio_def)

lemma limits_overlap:
  assumes "0 \<le> hr" and "fr < 1" and "hr + fr \<ge> 1" and "is_double hr" and "0 < H"
  shows "footer_limit H fr \<le> header_limit H hr"
proof -
  have "0 \<le> 1 - fr" "1 - fr \<le> hr" using assms(2,3) by simp_all
  then have "double (1 - fr) \<le> double hr" by (rule double_mono_nonneg)
  also have "double hr = hr" using assms(4) by (simp add: is_double_def)
  finally have "H * double (1 - fr) \<le> H * hr" using assms(5) by (simp add: mult_left_mono)
  moreover have "0 \<le> H * double (1 - fr)"
    using assms(5) \<open>0 \<le> 1 - fr\<close> by (simp add: double_nonneg)
  ultimately have "double (H * double (1 - fr)) \<le> double (H * hr)"
    by (intro double_mono_nonneg)
  then show ?thesis by (simp add: footer_limit_def header_limit_def)
qed

text \<open>
  Claim C10 as stated takes the header limit to be at least the footer limit whenever
  the two ratios add up to at least 1. The program adds, subtracts and multiplies in
  doubles. With the header ratio \<^verbatim>\<open>0.49999999999999994\<close> and the footer ratio \<^verbatim>\<open>0.5\<close>,
  both in \<open>[0, 1)\<close>, the sum of line 38 rounds to 1, so the test of the program
  holds; on a page of height 1000 the header limit is \<^verbatim>\<open>499.99999999999994\<close> and the
  footer limit is 500: the header limit is below the footer limit.
\<close>

theorem rounded_sum_does_not_order_limits_counterexample:
  "is_double (9007199254740991 / 2 ^ 54) \<and> is_double (1 / 2)
   \<and> valid_ratio (9007199254740991 / 2 ^ 54) = 9007199254740991 / 2 ^ 54
   \<and> valid_ratio (1 / 2) = 1 / 2
   \<and> ratio_warning (valid_ratio (9007199254740991 / 2 ^ 54)) (valid_ratio (1 / 2))
   \<and> header_limit 1000 (valid_ratio (9007199254740991 / 2 ^ 54)) = 8796093022207999 / 2 ^ 44
   \<and> footer_limit 1000 (valid_ratio (1 / 2)) = 500
   \<and> header_limit 1000 (valid_ratio (9007199254740991 / 2 ^ 54))
       < footer_limit 1000 (valid_ratio (1 / 2))"
  by (simp add: is_double_def valid_ratio_def ratio_warning_def header_limit_def footer_limit_def
      double_eval)

text \<open>
  Claim C10, amended. With both ratios in \<open>[0, 1)\<close>, the header ratio a double, the
  exact sum of the two ratios at least 1 and a page of positive height, the computed
  header limit is at least the computed footer limit, and a reference with placement
  rectangles is kept exactly when one of its rectangles has its bottom edge below
  the header limit and its top edge above the footer limit; otherwise it is
  skipped. Neither outcome is unconditional: a rectangle from below the footer limit
  to beyond the header limit is kept, a rectangle at the top edge of the page is
  skipped.
\<close>

theorem overlapping_zones_keep_iff_spanning_rect:
  assumes "0 \<le> hr" and "hr < 1" and "0 \<le> fr" and "fr < 1" and "hr + fr \<ge> 1"
    and "is_double hr" and "0 < height p"
  shows "footer_limit (height p) (valid_ratio fr) \<le> header_limit (height p) (valid_ratio hr)
       \<and> (\<forall>image_rects. image_rects \<noteq> [] \<longrightarrow>
            (\<not> skip_header_footer (header_limit (height p) (valid_ratio hr))
                  (footer_limit (height p) (valid_ratio fr)) image_rects
              \<longleftrightarrow> (\<exists>r\<in>set image_rects. y1 r > double (height p * hr)
                                       \<and> y0 r < double (height p * double (1 - fr)))))
       \<and> (\<forall>i image_rects processed_xrefs c n st.
            get_image_rects p i = Inr image_rects \<and> image_rects \<noteq> [] \<and>
            xref i \<noteq> 0 \<and> xref i \<notin> processed_xrefs \<longrightarrow>
            image_step c p n (header_limit (height p) (valid_ratio hr))
                (footer_limit (height p) (valid_ratio fr)) processed_xrefs i st =
               (if \<exists>r\<in>set image_rects. y1 r > double (height p * hr)
                                       \<and> y0 r < double (height p * double (1 - fr))
                then (case process_kept c n (xref i) st of
                        (st', x) \<Rightarrow> (insert (xref i) processed_xrefs, st', x))
                else (insert (xref i) processed_xrefs,
                      st\<lparr>skipped_header_footer := skipped_header_footer st + 1,
                         events := events st @ [Header_footer_skip n (xref i)]\<rparr>,
                      None)))
       \<and> \<not> skip_header_footer (header_limit (height p) (valid_ratio hr))
            (footer_limit (height p) (valid_ratio fr))
            [\<lparr>x0 = 0, y0 = double (height p * double (1 - fr)) - 1, x1 = 0,
              y1 = double (height p * hr) + 1\<rparr>]
       \<and> skip_header_footer (header_limit (height p) (valid_ratio hr))
            (footer_limit (height p) (valid_ratio fr))
            [\<lparr>x0 = 0, y0 = 0, x1 = 0, y1 = 0\<rparr>]"
proof -
  let ?H = "height p"
  have v: "valid_ratio hr = hr" "valid_ratio fr = fr"
    using assms by (simp_all add: valid_ratio_id)
  have lim: "footer_limit ?H fr \<le> header_limit ?H hr"
    using assms(1,4,5,6,7) by (rule limits_overlap)
  have cls: "\<not> skip_header_footer (header_limit ?H hr) (footer_limit ?H fr) rs
      \<longleftrightarrow> (\<exists>r\<in>set rs. y1 r > double (?H * hr) \<and> y0 r < double (?H * double (1 - fr)))"
    if "rs \<noteq> []" for rs
    using that by (auto simp: skip_header_footer_iff header_limit_def footer_limit_def not_le)
  have step: "image_step c p n (header_limit ?H hr) (footer_limit ?H fr) P i st =
      (if \<exists>r\<in>set rs. y1 r > double (?H * hr) \<and> y0 r < double (?H * double (1 - fr))
       then (case process_kept c n (xref i) st of (st', x) \<Rightarrow> (insert (xref i) P, st', x))
       else (insert (xref i) P,
             st\<lparr>skipped_header_footer := skipped_header_footer st + 1,
                events := events st @ [Header_footer_skip n (xref i)]\<rparr>, None))"
    if "get_image_rects p i = Inr rs" "rs \<noteq> []" "xref i \<noteq> 0" "xref i \<notin> P" for i rs P c n st
  proof -
    have e: "image_step c p n (header_limit ?H hr) (footer_limit ?H fr) P i st =
          filter_and_process c n (header_limit ?H hr) (footer_limit ?H fr) P (xref i) rs st"
      using that by (simp add: image_step_with_rects)
    show ?thesis
    proof (cases "\<exists>r\<in>set rs. y1 r > double (?H * hr) \<and> y0 r < double (?H * double (1 - fr))")
      case True
      then have "\<not> skip_header_footer (header_limit ?H hr) (footer_limit ?H fr) rs"
        using cls [OF that(2)] by blast
      then show ?thesis
        unfolding e filter_and_process_def using True by auto
    next
      case False
      then have "skip_header_footer (header_limit ?H hr) (footer_limit ?H fr) rs"
        using cls [OF that(2)] by blast
      then show ?thesis
        unfolding e filter_and_process_def using False by auto
    qed
  qed
  have keep: "\<not> skip_header_footer (header_limit ?H hr) (footer_limit ?H fr)
       [\<lparr>x0 = 0, y0 = double (?H * double (1 - fr)) - 1, x1 = 0, y1 = double (?H * hr) + 1\<rparr>]"
    by (simp add: cls)
  have "0 \<le> ?H * hr" using assms(1,7) by simp
  then have "0 \<le> double (?H * hr)" by (rule double_nonneg)
  then have skip: "skip_header_footer (header_limit ?H hr) (footer_limit ?H fr)
       [\<lparr>x0 = 0, y0 = 0, x1 = 0, y1 = 0\<rparr>]"
    by (simp add: skip_header_footer_iff header_limit_def)
  show ?thesis
    unfolding v using lim cls step keep skip by blast
qed

text \<open>
  On a page of height 792 with the header ratio 0.9 and the footer ratio 0.15 the
  header limit is \<^verbatim>\<open>712.8000000000001\<close> and the footer limit \<^verbatim>\<open>673.1999999999999\<close>. A
  rectangle from the footer limit to the bottom of the page does not reach above
  the footer limit and is skipped; a rectangle from 600 to 720 is kept.
\<close>

theorem overlapping_zones_keep_iff_spanning_rect_witness:
  "footer_limit 792 (valid_ratio (double 0.15)) \<le> header_limit 792 (valid_ratio (double 0.9))
   \<and> skip_header_footer (header_limit 792 (valid_ratio (double 0.9)))
        (footer_limit 792 (valid_ratio (double 0.15)))
        [\<lparr>x0 = 0, y0 = 5921529822550425 / 2 ^ 43, x1 = 100, y1 = 792\<rparr>]
   \<and> \<not> skip_header_footer (header_limit 792 (valid_ratio (double 0.9)))
        (footer_limit 792 (valid_ratio (double 0.15)))
        [\<lparr>x0 = 0, y0 = 600, x1 = 100, y1 = 720\<rparr>]"
proof -
  let ?p = "test_page1\<lparr>height := 792\<rparr>"
  have h: "height ?p = 792" by simp
  have a: "(0::real) \<le> double 0.9" "double 0.9 < 1" "(0::real) \<le> double 0.15" "double 0.15 < 1"
    "double 0.9 + double 0.15 \<ge> 1" "is_double (double 0.9)" "0 < height ?p"
    by (simp_all add: double_literals is_double_def) (simp_all add: double_eval)
  note t = overlapping_zones_keep_iff_spanning_rect [OF a]
  have l: "double (792 * double 0.9) = 6269855106229863 / 2 ^ 43"
    "double (792 * double (1 - double 0.15)) = 5921529822550425 / 2 ^ 43"
    by (simp_all add: double_eval)
  from t have o: "footer_limit 792 (valid_ratio (double 0.15)) \<le> header_limit 792 (valid_ratio (double 0.9))"
    unfolding h by blast
  from t have i: "rs \<noteq> [] \<Longrightarrow>
      (\<not> skip_header_footer (header_limit 792 (valid_ratio (double 0.9)))
            (footer_limit 792 (valid_ratio (double 0.15))) rs) =
      (\<exists>r\<in>set rs. y1 r > 6269855106229863 / 2 ^ 43 \<and> y0 r < 5921529822550425 / 2 ^ 43)" for rs
    unfolding h l by blast
  have "skip_header_footer (header_limit 792 (valid_ratio (double 0.9)))
        (footer_limit 792 (valid_ratio (double 0.15)))
        [\<lparr>x0 = 0, y0 = 5921529822550425 / 2 ^ 43, x1 = 100, y1 = 792\<rparr>]"
    using i [of "[\<lparr>x0 = 0, y0 = 5921529822550425 / 2 ^ 43, x1 = 100, y1 = 792\<rparr>]"] by simp
  moreover have "\<not> skip_header_footer (header_limit 792 (valid_ratio (double 0.9)))
        (footer_limit 792 (valid_ratio (double 0.15)))
        [\<lparr>x0 = 0, y0 = 600, x1 = 100, y1 = 720\<rparr>]"
    using i [of "[\<lparr>x0 = 0, y0 = 600, x1 = 100, y1 = 720\<rparr>]"] by simp
  ultimately show ?thesis using o by simp
qed

section \<open>One page: every reference at most once\<close>

lemma filter_and_process_trace:
  assumes "filter_and_process c n hl fl P xr rs st = (P', st', x)"
  shows "P' = insert xr P \<and>
         (\<exists>ev. events st' = events st @ [ev] \<and> event_xref ev = xr \<and> event_page ev = n)"
proof (cases "skip_header_footer hl fl rs")
  case True
  with assms show ?thesis by (auto simp: filter_and_process_def)
next
  case False
  with assms have "P' = insert xr P" "st' = fst (process_kept c n xr st)"
    by (auto simp: filter_and_process_def split: prod.splits)
  then show ?thesis using process_kept_events [of c n xr st] by simp
qed

lemma image_step_trace:
  assumes "image_step c p n hl fl P i st = (P', st', x)"
  shows "(P' = P \<and> events st' = events st) \<or>
         (xref i \<noteq> 0 \<and> xref i \<notin> P \<and> P' = insert (xref i) P \<and>
          (\<exists>ev. events st' = events st @ [ev] \<and> event_xref ev = xref i \<and> event_page ev = n))"
proof (cases "xref i = 0 \<or> xref i \<in> P")
  case True
  with assms show ?thesis by (auto simp: image_step_def)
next
  case False
  then have nz: "xref i \<noteq> 0" "xref i \<notin> P" by auto
  show ?thesis
  proof (cases "get_image_rects p i")
    case (Inl e)
    show ?thesis
    proof (cases "is_Exception e")
      case True
      with assms Inl nz have "filter_and_process c n hl fl P (xref i) [] st = (P', st', x)"
        by (simp add: image_step_def)
      from filter_and_process_trace [OF this] nz show ?thesis by blast
    next
      case False
      with assms Inl nz show ?thesis by (simp add: image_step_def)
    qed
  next
    case (Inr rs)
    with assms nz have "filter_and_process c n hl fl P (xref i) rs st = (P', st', x)"
      by (simp add: image_step_def)
    from filter_and_process_trace [OF this] nz show ?thesis by blast
  qed
qed

lemma image_loop_trace:
  "image_loop c p n hl fl P infos st = (st', x) \<Longrightarrow>
     \<exists>new. events st' = events st @ new \<and> distinct (map event_xref new) \<and>
           set (map event_xref new) \<subseteq> xref ` set infos - P - {0} \<and>
           (\<forall>ev\<in>set new. event_page ev = n)"
proof (induction infos arbitrary: P st)
  case Nil
  then show ?case by simp
next
  case (Cons i rest)
  obtain P1 st1 x1 where s: "image_step c p n hl fl P i st = (P1, st1, x1)"
    by (cases "image_step c p n hl fl P i st") auto
  note tr = image_step_trace [OF s]
  show ?case
  proof (cases x1)
    case (Some e)
    with Cons.prems s have "st' = st1" by simp
    with tr show ?thesis
    proof (elim disjE conjE exE)
      assume "P1 = P" "events st1 = events st"
      with \<open>st' = st1\<close> show ?thesis by (intro exI [of _ "[]"]) simp
    next
      fix ev assume "events st1 = events st @ [ev]" "event_xref ev = xref i" "event_page ev = n"
        "xref i \<noteq> 0" "xref i \<notin> P"
      with \<open>st' = st1\<close> show ?thesis by (intro exI [of _ "[ev]"]) simp
    qed
  next
    case None
    with Cons.prems s have "image_loop c p n hl fl P1 rest st1 = (st', x)" by simp
    from Cons.IH [OF this] obtain new where
      n: "events st' = events st1 @ new" "distinct (map event_xref new)"
         "set (map event_xref new) \<subseteq> xref ` set rest - P1 - {0}"
         "\<forall>ev\<in>set new. event_page ev = n"
      by blast
    from tr show ?thesis
    proof (elim disjE conjE exE)
      assume "P1 = P" "events st1 = events st"
      with n show ?thesis by (intro exI [of _ new]) auto
    next
      fix ev assume a: "events st1 = events st @ [ev]" "event_xref ev = xref i" "event_page ev = n"
        "xref i \<noteq> 0" "xref i \<notin> P" "P1 = insert (xref i) P"
      with n show ?thesis by (intro exI [of _ "ev # new"]) auto
    qed
  qed
qed

text \<open>
  Claim C2. On every page a reference number 0 is skipped whatever its rectangles
  are (the loop body changes nothing), and in the run of the loop over one page's
  image list (which starts with no reference processed) the references that are
  skipped as header/footer or sent to the extraction are pairwise distinct, are
  never 0 and all occur in the image list: each reference number is processed at
  most once per page, however often the list repeats it.
\<close>

theorem xref_processed_at_most_once:
  "(xref i = 0 \<longrightarrow> image_step c p n hl fl P i st = (P, st, None))
   \<and> (image_loop c p n hl fl {} image_list st = (st', x) \<longrightarrow>
        (\<exists>new. events st' = events st @ new \<and> distinct (map event_xref new) \<and>
               0 \<notin> set (map event_xref new) \<and>
               set (map event_xref new) \<subseteq> xref ` set image_list \<and>
               (\<forall>ev\<in>set new. event_page ev = n)))"
proof (intro conjI impI)
  assume "xref i = 0"
  then show "image_step c p n hl fl P i st = (P, st, None)"
    by (simp add: image_step_def)
next
  assume "image_loop c p n hl fl {} image_list st = (st', x)"
  from image_loop_trace [OF this] obtain new where
    "events st' = events st @ new" "distinct (map event_xref new)"
    "set (map event_xref new) \<subseteq> xref ` set image_list - {} - {0}"
    "\<forall>ev\<in>set new. event_page ev = n"
    by blast
  then show "\<exists>new. events st' = events st @ new \<and> distinct (map event_xref new) \<and>
               0 \<notin> set (map event_xref new) \<and>
               set (map event_xref new) \<subseteq> xref ` set image_list \<and>
               (\<forall>ev\<in>set new. event_page ev = n)"
    by (intro exI [of _ new]) auto
qed

text \<open>The third page of the test document, run on its own.\<close>

lemma test_page3_loop:
  "image_loop test_env test_page3 2 100 900 {}
      [info 0, info 7, info 7, info 8, info 9, info 9] init_state =
   (\<lparr>image_count = 2, skipped_header_footer = 0,
     uploaded = [\<lparr>blob_path = ''out/report_page_3_img_1.jpg'', blob_data = [255, 216],
                  blob_content_type = ''image/jpeg''\<rparr>,
                 \<lparr>blob_path = ''out/report_page_3_img_2.jpg'', blob_data = [255, 216],
                  blob_content_type = ''image/jpeg''\<rparr>],
     events = [Extract_image 2 7, Extract_image 2 8, Extract_image 2 9]\<rparr>, None)"
  by (simp add: image_step_def filter_and_process_def process_kept_def extract_and_upload_def
      skip_header_footer_def is_potentially_header_footer_def convert_to_rgb_def
      final_blob_path_def final_image_name_def pdf_filename_base_def basename_def
      splitext_root_def strip_def str_nat.simps
      test_env_def test_page3_def test_document_def test_libraries_def test_bucket_def
      info_def init_state_def rect_in_body_def is_Exception_def Let_def)

theorem xref_processed_at_most_once_witness:
  "image_step test_env test_page3 2 100 900 {} (info 0) init_state = ({}, init_state, None)
   \<and> (\<exists>new. [Extract_image 2 7, Extract_image 2 8, Extract_image 2 9] = new \<and>
          distinct (map event_xref new) \<and> 0 \<notin> set (map event_xref new))"
proof -
  have z: "xref (info 0) = 0" by (simp add: info_def)
  note t = xref_processed_at_most_once [of "info 0" test_env test_page3 2 100 900 "{}" init_state
      "[info 0, info 7, info 7, info 8, info 9, info 9]" _ None]
  from t z have "image_step test_env test_page3 2 100 900 {} (info 0) init_state = ({}, init_state, None)"
    by blast
  moreover from t test_page3_loop
  have "\<exists>new. [Extract_image 2 7, Extract_image 2 8, Extract_image 2 9] = events init_state @ new \<and>
          distinct (map event_xref new) \<and> 0 \<notin> set (map event_xref new)"
    by fastforce
  ultimately show ?thesis by (simp add: init_state_def)
qed

section \<open>Failures of one page and of one reference\<close>

lemma image_step_kept:
  assumes "xref i \<noteq> 0" and "xref i \<notin> P"
    and "case get_image_rects p i of Inl e' \<Rightarrow> is_Exception e' | Inr rs \<Rightarrow> \<not> skip_header_footer hl fl rs"
  shows "image_step c p n hl fl P i st =
           (case process_kept c n (xref i) st of (st', x) \<Rightarrow> (insert (xref i) P, st', x))"
proof (cases "get_image_rects p i")
  case (Inl e')
  with assms have "is_Exception e'" by simp
  moreover have "\<not> skip_header_footer hl fl []" by (simp add: skip_header_footer_def)
  ultimately show ?thesis
    using assms(1,2) Inl by (simp add: image_step_def filter_and_process_def)
next
  case (Inr rs)
  with assms have "\<not> skip_header_footer hl fl rs" by simp
  then show ?thesis
    using assms(1,2) Inr by (simp add: image_step_def filter_and_process_def)
qed

lemma process_kept_failure:
  assumes "extract_and_upload c n (image_count st) xr = Inl e" and "is_Exception e"
  shows "process_kept c n xr st = (st\<lparr>events := events st @ [Extract_image n xr]\<rparr>, None)"
  using assms by (simp add: process_kept_def)

text \<open>
  Claim C8. Failures are contained at the narrowest scope. When the image list of a
  page cannot be retrieved, only that page is skipped: the run from that page on is
  the run from the next page on, from the same state, and when a page with a
  readable image list follows, the loop over that list runs next. When the
  extraction, the decoding, the re-encoding or the upload of a kept reference
  raises an error, the \<^verbatim>\<open>try\<close> body fails as a whole and only that reference is
  skipped: the counters and the uploaded blobs are as before, the reference is
  marked as processed, and the loop body runs next for the reference that follows
  on the same page. Neither failure leaves the loops.
\<close>

theorem failures_are_contained:
  "(0 < height p \<and> get_images p = Inl e \<and> is_Exception e \<longrightarrow>
      page_loop c hr fr n (Inr p # rest) st = page_loop c hr fr (n + 1) rest st
      \<and> (\<forall>p2 image_list rest2.
            rest = Inr p2 # rest2 \<and> 0 < height p2 \<and> get_images p2 = Inr image_list \<longrightarrow>
            page_loop c hr fr n (Inr p # rest) st =
              (case image_loop c p2 (n + 1) (header_limit (height p2) hr)
                      (footer_limit (height p2) fr) {} image_list st of
                 (st', None) \<Rightarrow> page_loop c hr fr (n + 2) rest2 st'
               | (st', Some e') \<Rightarrow> (st', Some e'))))
   \<and> (xref i \<noteq> 0 \<and> xref i \<notin> P \<and>
       (case get_image_rects p i of
          Inl e' \<Rightarrow> is_Exception e'
        | Inr rs \<Rightarrow> \<not> skip_header_footer hl fl rs) \<and>
       extract_and_upload c n (image_count st) (xref i) = Inl e \<and> is_Exception e \<longrightarrow>
      image_loop c p n hl fl P (i # infos) st =
        image_loop c p n hl fl (insert (xref i) P) infos
          (st\<lparr>events := events st @ [Extract_image n (xref i)]\<rparr>)
      \<and> (\<forall>i2 infos2.
            infos = i2 # infos2 \<longrightarrow>
            image_loop c p n hl fl P (i # infos) st =
              (case image_step c p n hl fl (insert (xref i) P) i2
                      (st\<lparr>events := events st @ [Extract_image n (xref i)]\<rparr>) of
                 (P', st', None) \<Rightarrow> image_loop c p n hl fl P' infos2 st'
               | (P', st', Some e') \<Rightarrow> (st', Some e'))))
   \<and> (extract_image (pdf_document c) xr = Inl e \<longrightarrow> extract_and_upload c n k xr = Inl e)
   \<and> (extract_image (pdf_document c) xr = Inr (Some bi) \<and> image_entry bi = Some image_bytes \<and>
       image_bytes \<noteq> [] \<and> Image_open (libs c) image_bytes = Inl e \<longrightarrow>
      extract_and_upload c n k xr = Inl e)
   \<and> (extract_image (pdf_document c) xr = Inr (Some bi) \<and> image_entry bi = Some image_bytes \<and>
       image_bytes \<noteq> [] \<and> Image_open (libs c) image_bytes = Inr im \<and>
       Image_save (libs c) (convert_to_rgb im) ''JPEG'' 85 = Inl e \<longrightarrow>
      extract_and_upload c n k xr = Inl e)
   \<and> (extract_image (pdf_document c) xr = Inr (Some bi) \<and> image_entry bi = Some image_bytes \<and>
       image_bytes \<noteq> [] \<and> Image_open (libs c) image_bytes = Inr im \<and>
       Image_save (libs c) (convert_to_rgb im) ''JPEG'' 85 = Inr image_buffer \<and>
       upload_from_file (output_bucket_obj c)
         (final_blob_path (image_dir c) (pdf_gcs_name c) n k) image_buffer ''image/jpeg'' = Some e \<longrightarrow>
      extract_and_upload c n k xr = Inl e)"
proof (intro conjI impI)
  assume a: "0 < height p \<and> get_images p = Inl e \<and> is_Exception e"
  then show skip: "page_loop c hr fr n (Inr p # rest) st = page_loop c hr fr (n + 1) rest st"
    by simp
  show "\<forall>p2 image_list rest2.
          rest = Inr p2 # rest2 \<and> 0 < height p2 \<and> get_images p2 = Inr image_list \<longrightarrow>
          page_loop c hr fr n (Inr p # rest) st =
            (case image_loop c p2 (n + 1) (header_limit (height p2) hr)
                    (footer_limit (height p2) fr) {} image_list st of
               (st', None) \<Rightarrow> page_loop c hr fr (n + 2) rest2 st'
             | (st', Some e') \<Rightarrow> (st', Some e'))"
  proof (intro allI impI)
    fix p2 image_list rest2
    assume b: "rest = Inr p2 # rest2 \<and> 0 < height p2 \<and> get_images p2 = Inr image_list"
    have "n + 1 + 1 = n + 2" by simp
    with b show "page_loop c hr fr n (Inr p # rest) st =
            (case image_loop c p2 (n + 1) (header_limit (height p2) hr)
                    (footer_limit (height p2) fr) {} image_list st of
               (st', None) \<Rightarrow> page_loop c hr fr (n + 2) rest2 st'
             | (st', Some e') \<Rightarrow> (st', Some e'))"
      unfolding skip by (simp split: prod.splits option.splits)
  qed
next
  assume a: "xref i \<noteq> 0 \<and> xref i \<notin> P \<and>
       (case get_image_rects p i of
          Inl e' \<Rightarrow> is_Exception e'
        | Inr rs \<Rightarrow> \<not> skip_header_footer hl fl rs) \<and>
       extract_and_upload c n (image_count st) (xref i) = Inl e \<and> is_Exception e"
  then have nz: "xref i \<noteq> 0" "xref i \<notin> P"
    and k: "case get_image_rects p i of
              Inl e' \<Rightarrow> is_Exception e'
            | Inr rs \<Rightarrow> \<not> skip_header_footer hl fl rs"
    and f: "extract_and_upload c n (image_count st) (xref i) = Inl e" "is_Exception e"
    by blast+
  have "image_step c p n hl fl P i st =
      (case process_kept c n (xref i) st of (st', x) \<Rightarrow> (insert (xref i) P, st', x))"
    using nz k by (rule image_step_kept)
  moreover have "process_kept c n (xref i) st =
      (st\<lparr>events := events st @ [Extract_image n (xref i)]\<rparr>, None)"
    using f by (rule process_kept_failure)
  ultimately show next_ref: "image_loop c p n hl fl P (i # infos) st =
        image_loop c p n hl fl (insert (xref i) P) infos
          (st\<lparr>events := events st @ [Extract_image n (xref i)]\<rparr>)"
    by simp
  show "\<forall>i2 infos2.
          infos = i2 # infos2 \<longrightarrow>
          image_loop c p n hl fl P (i # infos) st =
            (case image_step c p n hl fl (insert (xref i) P) i2
                    (st\<lparr>events := events st @ [Extract_image n (xref i)]\<rparr>) of
               (P', st', None) \<Rightarrow> image_loop c p n hl fl P' infos2 st'
             | (P', st', Some e') \<Rightarrow> (st', Some e'))"
    unfolding next_ref by simp
qed (simp_all add: extract_and_upload_def)

text \<open>
  In the test document the image list of page 2 cannot be read and page 3 follows:
  the references of page 3 are processed. On page 3 the image of reference 8
  cannot be extracted and reference 9 follows: it is uploaded.
\<close>

theorem failures_are_contained_witness:
  "page_loop test_env (double 0.1) (double 0.1) 1 [Inr test_page2, Inr test_page3] init_state =
     (\<lparr>image_count = 2, skipped_header_footer = 0,
       uploaded = [\<lparr>blob_path = ''out/report_page_3_img_1.jpg'', blob_data = [255, 216],
                    blob_content_type = ''image/jpeg''\<rparr>,
                   \<lparr>blob_path = ''out/report_page_3_img_2.jpg'', blob_data = [255, 216],
                    blob_content_type = ''image/jpeg''\<rparr>],
       events = [Extract_image 2 7, Extract_image 2 8, Extract_image 2 9]\<rparr>, None)
   \<and> image_loop test_env test_page3 2 100 900 {} [info 8, info 9, info 9] init_state =
       (\<lparr>image_count = 1, skipped_header_footer = 0,
         uploaded = [\<lparr>blob_path = ''out/report_page_3_img_1.jpg'', blob_data = [255, 216],
                      blob_content_type = ''image/jpeg''\<rparr>],
         events = [Extract_image 2 8, Extract_image 2 9]\<rparr>, None)"
proof -
  note t = failures_are_contained [where p = test_page2 and e = OtherException and c = test_env
      and hr = "double 0.1" and fr = "double 0.1" and n = 1 and rest = "[Inr test_page3]"
      and st = init_state]
  have pre: "0 < height test_page2 \<and> get_images test_page2 = Inl OtherException \<and>
      is_Exception OtherException"
    by (simp add: test_page2_def is_Exception_def)
  have nxt: "[Inr test_page3] = Inr test_page3 # [] \<and> 0 < height test_page3 \<and>
      get_images test_page3 = Inr [info 0, info 7, info 7, info 8, info 9, info 9]"
    by (simp add: test_page3_def)
  note t1 = t [THEN conjunct1, THEN mp, OF pre, THEN conjunct2, rule_format, OF nxt]
  have h: "height test_page3 = 1000" by (simp add: test_page3_def)
  have n2: "(1::nat) + 1 = 2" by simp
  have a: "page_loop test_env (double 0.1) (double 0.1) 1
      [Inr test_page2, Inr test_page3] init_state =
     (\<lparr>image_count = 2, skipped_header_footer = 0,
       uploaded = [\<lparr>blob_path = ''out/report_page_3_img_1.jpg'', blob_data = [255, 216],
                    blob_content_type = ''image/jpeg''\<rparr>,
                   \<lparr>blob_path = ''out/report_page_3_img_2.jpg'', blob_data = [255, 216],
                    blob_content_type = ''image/jpeg''\<rparr>],
       events = [Extract_image 2 7, Extract_image 2 8, Extract_image 2 9]\<rparr>, None)"
    unfolding t1 h n2 test_limits test_page3_loop by simp
  note u = failures_are_contained [where p = test_page3 and e = RuntimeError and c = test_env
      and n = 2 and st = init_state and i = "info 8" and P = "{}" and hl = 100 and fl = 900
      and infos = "[info 9, info 9]" and xr = 8 and k = "image_count init_state"]
  have x: "extract_image (pdf_document test_env) 8 = Inl RuntimeError"
    by (simp add: test_env_def test_document_def)
  note f = u [THEN conjunct2, THEN conjunct2, THEN conjunct1, THEN mp, OF x]
  have kept: "xref (info 8) \<noteq> 0 \<and> xref (info 8) \<notin> {} \<and>
       (case get_image_rects test_page3 (info 8) of
          Inl e' \<Rightarrow> is_Exception e'
        | Inr rs \<Rightarrow> \<not> skip_header_footer 100 900 rs) \<and>
       extract_and_upload test_env 2 (image_count init_state) (xref (info 8)) = Inl RuntimeError \<and>
       is_Exception RuntimeError"
    using f by (simp add: info_def test_page3_def skip_header_footer_def is_Exception_def)
  note u1 = u [THEN conjunct2, THEN conjunct1, THEN mp, OF kept, THEN conjunct1]
  have b: "image_loop test_env test_page3 2 100 900 {} [info 8, info 9, info 9] init_state =
       (\<lparr>image_count = 1, skipped_header_footer = 0,
         uploaded = [\<lparr>blob_path = ''out/report_page_3_img_1.jpg'', blob_data = [255, 216],
                      blob_content_type = ''image/jpeg''\<rparr>],
         events = [Extract_image 2 8, Extract_image 2 9]\<rparr>, None)"
    unfolding u1
    by (simp add: image_step_def filter_and_process_def process_kept_def extract_and_upload_def
      skip_header_footer_def is_potentially_header_footer_def convert_to_rgb_def
      final_blob_path_def final_image_name_def pdf_filename_base_def basename_def
      splitext_root_def strip_def str_nat.simps
      test_env_def test_page3_def test_document_def test_libraries_def test_bucket_def
      info_def init_state_def rect_in_body_def is_Exception_def Let_def)
  from a b show ?thesis by simp
qed

section \<open>Output names\<close>

text \<open>Decimal numerals consist of digits and determine the number.\<close>

lemma digit_nth: "d < 10 \<Longrightarrow> is_digit (''0123456789'' ! d)"
  unfolding is_digit_def by (rule nth_mem) simp

lemma digit_nth_inj:
  assumes "a < 10" and "b < 10" and "''0123456789'' ! a = ''0123456789'' ! b"
  shows "a = b"
proof -
  have "distinct ''0123456789''" by simp
  moreover have "a < length ''0123456789''" "b < length ''0123456789''" using assms by simp_all
  ultimately show ?thesis using assms(3) by (simp only: nth_eq_iff_index_eq)
qed

lemma str_nat_digits: "\<forall>ch\<in>set (str_nat n). is_digit ch"
proof (induction n rule: str_nat.induct)
  case (1 n)
  show ?case
  proof (cases "n < 10")
    case True
    then show ?thesis by (simp add: str_nat.simps [of n] digit_nth)
  next
    case False
    with 1 have "\<forall>ch\<in>set (str_nat (n div 10)). is_digit ch" by simp
    moreover have "is_digit (''0123456789'' ! (n mod 10))" by (rule digit_nth) simp
    ultimately show ?thesis using False by (simp add: str_nat.simps [of n])
  qed
qed

lemma str_nat_not_Nil: "str_nat n \<noteq> []"
  by (subst str_nat.simps) simp

lemma str_nat_inj: "str_nat m = str_nat n \<Longrightarrow> m = n"
proof (induction m arbitrary: n rule: str_nat.induct)
  case (1 m)
  show ?case
  proof (cases "m < 10")
    case m: True
    show ?thesis
    proof (cases "n < 10")
      case True
      with m "1.prems" have "''0123456789'' ! m = ''0123456789'' ! n"
        by (simp add: str_nat.simps [of m] str_nat.simps [of n])
      with m True show ?thesis by (rule digit_nth_inj)
    next
      case False
      with m "1.prems" have "str_nat (n div 10) = []"
        by (simp add: str_nat.simps [of m] str_nat.simps [of n])
      then show ?thesis by (simp add: str_nat_not_Nil)
    qed
  next
    case m: False
    show ?thesis
    proof (cases "n < 10")
      case True
      with m "1.prems" have "str_nat (m div 10) = []"
        by (simp add: str_nat.simps [of m] str_nat.simps [of n])
      then show ?thesis by (simp add: str_nat_not_Nil)
    next
      case False
      with m "1.prems" have e: "str_nat (m div 10) = str_nat (n div 10)"
        and l: "''0123456789'' ! (m mod 10) = ''0123456789'' ! (n mod 10)"
        by (simp_all add: str_nat.simps [of m] str_nat.simps [of n])
      from "1.IH" [OF m e] have "m div 10 = n div 10" .
      moreover have "m mod 10 = n mod 10"
        by (rule digit_nth_inj [OF _ _ l]) simp_all
      ultimately show ?thesis by (metis div_mult_mod_eq)
    qed
  qed
qed

lemma takeWhile_digits_sep:
  assumes "\<forall>ch\<in>set ds. is_digit ch" and "\<not> is_digit s"
  shows "takeWhile is_digit (ds @ s # rest) = ds"
  using assms by (induction ds) simp_all

lemma numbered_suffix_inj:
  assumes "a @ ''_img_'' @ str_nat m @ ''.jpg'' = b @ ''_img_'' @ str_nat n @ ''.jpg''"
  shows "m = n"
proof -
  have nd: "\<not> is_digit CHR ''_''" by (simp add: is_digit_def)
  have r: "takeWhile is_digit (rev (x @ ''_img_'' @ str_nat k)) = rev (str_nat k)" for x k
  proof -
    have "rev (x @ ''_img_'' @ str_nat k) = rev (str_nat k) @ CHR ''_'' # (''gmi_'' @ rev x)"
      by simp
    moreover have "\<forall>ch\<in>set (rev (str_nat k)). is_digit ch"
      using str_nat_digits [of k] by simp
    ultimately show ?thesis using takeWhile_digits_sep [OF _ nd] by metis
  qed
  from assms have "a @ ''_img_'' @ str_nat m = b @ ''_img_'' @ str_nat n"
    by (simp only: append_assoc [symmetric] append_same_eq)
  then have "takeWhile is_digit (rev (a @ ''_img_'' @ str_nat m)) =
             takeWhile is_digit (rev (b @ ''_img_'' @ str_nat n))"
    by simp
  then have "rev (str_nat m) = rev (str_nat n)" by (simp only: r)
  then show ?thesis by (simp add: str_nat_inj)
qed

lemma final_blob_path_inj:
  assumes "final_blob_path dir name n k = final_blob_path dir name n' k'"
  shows "k = k'"
proof -
  let ?a = "strip ''/'' dir @ ''/'' @ pdf_filename_base name @ ''_page_''"
  from assms have "(?a @ str_nat (n + 1)) @ ''_img_'' @ str_nat (k + 1) @ ''.jpg'' =
      (?a @ str_nat (n' + 1)) @ ''_img_'' @ str_nat (k' + 1) @ ''.jpg''"
    by (simp add: final_blob_path_def final_image_name_def)
  then have "k + 1 = k' + 1" by (rule numbered_suffix_inj)
  then show ?thesis by simp
qed

section \<open>The uploads of a run\<close>

text \<open>
  Every step of the loops only appends uploads, each written under the counter that
  stood when it was made; the relation is reflexive and transitive, so it carries
  through the loop over the image list and the loop over the pages.
\<close>

lemma uploads_between_refl: "uploads_between c Q st st"
  unfolding uploads_between_def by (intro exI [of _ "[]"]) simp

lemma uploads_between_same:
  assumes "uploaded st' = uploaded st" and "image_count st' = image_count st"
  shows "uploads_between c Q st st'"
  unfolding uploads_between_def using assms by (intro exI [of _ "[]"]) simp

lemma uploads_between_mono:
  assumes "uploads_between c Q st st'" and "\<And>n xr. Q n xr \<Longrightarrow> Q' n xr"
  shows "uploads_between c Q' st st'"
  using assms unfolding uploads_between_def by blast

lemma uploads_between_trans:
  assumes "uploads_between c Q st st1" and "uploads_between c Q st1 st2"
  shows "uploads_between c Q st st2"
proof -
  from assms(1) obtain new1 where
    a: "uploaded st1 = uploaded st @ new1" "image_count st1 = image_count st + length new1"
       "\<forall>j<length new1. \<exists>n xr. Q n xr \<and> written_from c n xr (image_count st + j) (new1 ! j)"
    unfolding uploads_between_def by blast
  from assms(2) obtain new2 where
    b: "uploaded st2 = uploaded st1 @ new2" "image_count st2 = image_count st1 + length new2"
       "\<forall>j<length new2. \<exists>n xr. Q n xr \<and> written_from c n xr (image_count st1 + j) (new2 ! j)"
    unfolding uploads_between_def by blast
  have "\<exists>n xr. Q n xr \<and> written_from c n xr (image_count st + j) ((new1 @ new2) ! j)"
    if "j < length (new1 @ new2)" for j
  proof (cases "j < length new1")
    case True
    with a(3) show ?thesis by (simp add: nth_append)
  next
    case False
    then have "j - length new1 < length new2" using that by simp
    with b(3) obtain n xr where
      "Q n xr" "written_from c n xr (image_count st1 + (j - length new1)) (new2 ! (j - length new1))"
      by blast
    moreover have "image_count st1 + (j - length new1) = image_count st + j"
      using a(2) False by simp
    ultimately show ?thesis using False by (auto simp: nth_append)
  qed
  with a(1,2) b(1,2) show ?thesis
    unfolding uploads_between_def by (intro exI [of _ "new1 @ new2"]) simp
qed

lemma extract_and_upload_written:
  assumes "extract_and_upload c n k xr = Inr (Some b)"
  shows "written_from c n xr k b"
  using assms unfolding extract_and_upload_def written_from_def
  by (auto split: sum.splits option.splits if_splits)

lemma process_kept_uploads:
  assumes "process_kept c n xr st = (st', x)"
  shows "uploads_between c (\<lambda>n' x'. n' = n \<and> x' = xr) st st'"
proof (cases "extract_and_upload c n (image_count st) xr")
  case (Inl e)
  with assms show ?thesis
    by (intro uploads_between_same) (auto simp: process_kept_def)
next
  case (Inr r)
  show ?thesis
  proof (cases r)
    case None
    with Inr assms show ?thesis
      by (intro uploads_between_same) (auto simp: process_kept_def)
  next
    case (Some b)
    with Inr have "written_from c n xr (image_count st) b"
      by (simp add: extract_and_upload_written)
    moreover from Some Inr assms have "uploaded st' = uploaded st @ [b]"
      "image_count st' = image_count st + 1"
      by (auto simp: process_kept_def)
    ultimately show ?thesis
      unfolding uploads_between_def by (intro exI [of _ "[b]"]) simp
  qed
qed

lemma filter_and_process_uploads:
  assumes "filter_and_process c n hl fl P xr rs st = (P', st', x)"
  shows "uploads_between c (\<lambda>n' x'. n' = n \<and> x' = xr) st st'"
proof (cases "skip_header_footer hl fl rs")
  case True
  with assms show ?thesis
    by (intro uploads_between_same) (auto simp: filter_and_process_def)
next
  case False
  with assms have "process_kept c n xr st = (st', x)"
    by (auto simp: filter_and_process_def split: prod.splits)
  then show ?thesis by (rule process_kept_uploads)
qed

lemma image_step_uploads:
  assumes "image_step c p n hl fl P i st = (P', st', x)"
  shows "uploads_between c (\<lambda>n' x'. n' = n \<and> x' = xref i) st st'"
proof -
  consider (same) "st' = st"
    | (filtered) rs where "filter_and_process c n hl fl P (xref i) rs st = (P', st', x)"
    using assms unfolding image_step_def by (auto split: if_splits sum.splits)
  then show ?thesis
  proof cases
    case same
    then show ?thesis by (simp add: uploads_between_refl)
  next
    case filtered
    then show ?thesis by (rule filter_and_process_uploads)
  qed
qed

lemma image_loop_uploads:
  "image_loop c p n hl fl P infos st = (st', x) \<Longrightarrow>
     uploads_between c (\<lambda>n' x'. n' = n \<and> x' \<in> xref ` set infos) st st'"
proof (induction infos arbitrary: P st)
  case Nil
  then show ?case by (simp add: uploads_between_refl)
next
  case (Cons i rest)
  obtain P1 st1 x1 where s: "image_step c p n hl fl P i st = (P1, st1, x1)"
    by (cases "image_step c p n hl fl P i st") auto
  have one: "uploads_between c (\<lambda>n' x'. n' = n \<and> x' \<in> xref ` set (i # rest)) st st1"
    by (rule uploads_between_mono [OF image_step_uploads [OF s]]) simp
  show ?case
  proof (cases x1)
    case (Some e)
    with Cons.prems s have "st' = st1" by simp
    with one show ?thesis by simp
  next
    case None
    with Cons.prems s have "image_loop c p n hl fl P1 rest st1 = (st', x)" by simp
    from Cons.IH [OF this]
    have "uploads_between c (\<lambda>n' x'. n' = n \<and> x' \<in> xref ` set (i # rest)) st1 st'"
      by (rule uploads_between_mono) simp
    with one show ?thesis by (rule uploads_between_trans)
  qed
qed

lemma page_loop_uploads:
  "page_loop c hr fr page_num pgs st = (st', x) \<Longrightarrow> pgs = drop page_num (pages d) \<Longrightarrow>
     uploads_between c (listed d) st st'"
proof (induction c hr fr page_num pgs st rule: page_loop.induct)
  case (1 c hr fr page_num st)
  from "1.prems"(1) have "st' = st" by simp
  then show ?case by (simp add: uploads_between_refl)
next
  case (2 c hr fr page_num e rest st)
  from "2.prems"(1) have "st' = st" by simp
  then show ?case by (simp add: uploads_between_refl)
next
  case (3 c hr fr page_num p rest st)
  from "3.prems"(2) have lt: "page_num < length (pages d)"
    by (metis drop_eq_Nil2 linorder_not_le list.distinct(1))
  with "3.prems"(2) have here: "pages d ! page_num = Inr p"
    and rest: "rest = drop (page_num + 1) (pages d)"
    by (simp_all add: Cons_nth_drop_Suc [symmetric])
  show ?case
  proof (cases "height p \<le> 0")
    case True
    with "3.prems"(1) have "page_loop c hr fr (page_num + 1) rest st = (st', x)" by simp
    from "3.IH"(1) [OF True this rest] show ?thesis .
  next
    case h: False
    show ?thesis
    proof (cases "get_images p")
      case (Inl e)
      show ?thesis
      proof (cases "is_Exception e")
        case True
        with h Inl "3.prems"(1) have "page_loop c hr fr (page_num + 1) rest st = (st', x)" by simp
        from "3.IH"(2) [OF h Inl True this rest] show ?thesis .
      next
        case False
        with h Inl "3.prems"(1) show ?thesis by (simp add: uploads_between_refl)
      qed
    next
      case (Inr image_list)
      obtain st1 x1 where l: "image_loop c p page_num (header_limit (height p) hr)
          (footer_limit (height p) fr) {} image_list st = (st1, x1)"
        by (cases "image_loop c p page_num (header_limit (height p) hr)
          (footer_limit (height p) fr) {} image_list st") auto
      have "uploads_between c (listed d) st st1"
      proof (rule uploads_between_mono [OF image_loop_uploads [OF l]])
        fix n xr assume "n = page_num \<and> xr \<in> xref ` set image_list"
        with lt here Inr show "listed d n xr"
          unfolding listed_def page_count_def by blast
      qed
      moreover have "uploads_between c (listed d) st1 st'"
      proof (cases x1)
        case None
        with h Inr l "3.prems"(1) have "page_loop c hr fr (page_num + 1) rest st1 = (st', x)"
          by simp
        from "3.IH"(3) [OF h Inr l [symmetric] _ this rest] None show ?thesis by simp
      next
        case (Some e)
        with h Inr l "3.prems"(1) have "st' = st1" by simp
        then show ?thesis by (simp add: uploads_between_refl)
      qed
      ultimately show ?thesis by (rule uploads_between_trans)
    qed
  qed
qed

lemma run_uploads:
  assumes "fitz_open L s = Inr d"
  shows "uploads_between
           \<lparr>libs = L, pdf_document = d, output_bucket_obj = bkt, pdf_gcs_name = name, image_dir = dir\<rparr>
           (listed d) init_state
           (final (extract_images_from_pdf L s name dir bkt header_ratio footer_ratio))"
proof -
  let ?c = "\<lparr>libs = L, pdf_document = d, output_bucket_obj = bkt, pdf_gcs_name = name, image_dir = dir\<rparr>"
  obtain st x where l: "page_loop ?c (valid_ratio header_ratio) (valid_ratio footer_ratio) 0 (pages d)
      init_state = (st, x)"
    by (cases "page_loop ?c (valid_ratio header_ratio) (valid_ratio footer_ratio) 0 (pages d) init_state") auto
  have "uploads_between ?c (listed d) init_state st"
    by (rule page_loop_uploads [OF l]) simp
  moreover have "final (extract_images_from_pdf L s name dir bkt header_ratio footer_ratio) = st"
    using assms l by (simp add: extract_images_from_pdf_def Let_def split: prod.splits)
  ultimately show ?thesis by simp
qed

lemma run_not_opened:
  assumes "fitz_open L s = Inl e"
  shows "final (extract_images_from_pdf L s name dir bkt header_ratio footer_ratio) = init_state"
  using assms by (simp add: extract_images_from_pdf_def Let_def)

section \<open>Counter, names and content of the uploads\<close>

lemma uploads_from_init:
  assumes "uploads_between c Q init_state st"
  shows "image_count st = length (uploaded st) \<and>
         (\<forall>k<length (uploaded st). \<exists>n xr. Q n xr \<and> written_from c n xr k (uploaded st ! k))"
  using assms unfolding uploads_between_def init_state_def by auto

lemma endswith_append: "endswith (xs @ suf) suf"
  by (simp add: endswith_def)

lemma distinct_by_index:
  assumes "\<And>j k. j < length xs \<Longrightarrow> k < length xs \<Longrightarrow> xs ! j = xs ! k \<Longrightarrow> j = k"
  shows "distinct xs"
  using assms by (auto simp: distinct_conv_nth)

text \<open>
  Claim C3. In one run over a document the counter ends at the number of blobs
  uploaded (it starts at 0, is never reset between pages and goes up only with an
  upload), the \<open>k\<close>-th upload of the run (counting from 0, over all pages) carries
  the number \<open>k + 1\<close> in its name, and the paths of the uploads of one run are
  pairwise distinct.
\<close>

theorem running_counter_names:
  assumes "r = extract_images_from_pdf L s name dir bkt header_ratio footer_ratio"
  shows "image_count (final r) = length (uploaded (final r))
       \<and> (\<forall>k<length (uploaded (final r)).
            \<exists>n. blob_path (uploaded (final r) ! k) =
                  strip ''/'' dir @ ''/'' @ pdf_filename_base name @ ''_page_'' @ str_nat (n + 1) @
                  ''_img_'' @ str_nat (k + 1) @ ''.jpg'')
       \<and> distinct (map blob_path (uploaded (final r)))"
proof -
  let ?st = "final r"
  have inv: "image_count ?st = length (uploaded ?st) \<and>
      (\<forall>k<length (uploaded ?st). \<exists>n. blob_path (uploaded ?st ! k) = final_blob_path dir name n k)"
  proof (cases "fitz_open L s")
    case (Inl e)
    then have "?st = init_state" unfolding assms by (rule run_not_opened)
    then show ?thesis by (simp add: init_state_def)
  next
    case (Inr d)
    from uploads_from_init [OF run_uploads [OF Inr, of bkt name dir header_ratio footer_ratio]]
    show ?thesis unfolding written_from_def assms by fastforce
  qed
  have "distinct (map blob_path (uploaded ?st))"
  proof (rule distinct_by_index)
    fix j k
    assume j: "j < length (map blob_path (uploaded ?st))"
      and k: "k < length (map blob_path (uploaded ?st))"
      and e: "map blob_path (uploaded ?st) ! j = map blob_path (uploaded ?st) ! k"
    from inv j obtain n where "blob_path (uploaded ?st ! j) = final_blob_path dir name n j" by auto
    moreover from inv k obtain n' where "blob_path (uploaded ?st ! k) = final_blob_path dir name n' k" by auto
    ultimately have "final_blob_path dir name n j = final_blob_path dir name n' k"
      using e j k by simp
    then show "j = k" by (rule final_blob_path_inj)
  qed
  with inv show ?thesis
    by (simp add: final_blob_path_def final_image_name_def)
qed

text \<open>The run over the test document, evaluated.\<close>

lemma test_run:
  "final (extract_images_from_pdf test_libraries [1] ''in/report.pdf'' ''out'' test_bucket 0.1 0.1) =
   \<lparr>image_count = 3, skipped_header_footer = 1,
     uploaded =
       [\<lparr>blob_path = ''out/report_page_1_img_1.jpg'', blob_data = [255, 216],
         blob_content_type = ''image/jpeg''\<rparr>,
        \<lparr>blob_path = ''out/report_page_3_img_2.jpg'', blob_data = [255, 216],
         blob_content_type = ''image/jpeg''\<rparr>,
        \<lparr>blob_path = ''out/report_page_3_img_3.jpg'', blob_data = [255, 216],
         blob_content_type = ''image/jpeg''\<rparr>],
     events =
       [Header_footer_skip 0 5, Extract_image 0 6, Extract_image 2 7,
        Extract_image 2 8, Extract_image 2 9]\<rparr>"
  by (simp add: extract_images_from_pdf_def finally_close_def uncaught_def truthy_def page_count_def
      test_limits
      image_step_def filter_and_process_def process_kept_def extract_and_upload_def
      skip_header_footer_def is_potentially_header_footer_def convert_to_rgb_def
      final_blob_path_def final_image_name_def pdf_filename_base_def basename_def
      splitext_root_def strip_def str_nat.simps
      test_page1_def test_page2_def test_page3_def test_document_def test_libraries_def
      test_bucket_def info_def init_state_def rect_in_body_def rect_in_header_def
      is_Exception_def Let_def)

theorem running_counter_names_witness:
  "image_count (final (extract_images_from_pdf test_libraries [1] ''in/report.pdf'' ''out''
      test_bucket 0.1 0.1)) = 3
   \<and> distinct (map blob_path (uploaded (final (extract_images_from_pdf test_libraries [1]
        ''in/report.pdf'' ''out'' test_bucket 0.1 0.1))))
   \<and> map blob_path (uploaded (final (extract_images_from_pdf test_libraries [1]
        ''in/report.pdf'' ''out'' test_bucket 0.1 0.1))) =
      [''out/report_page_1_img_1.jpg'', ''out/report_page_3_img_2.jpg'',
       ''out/report_page_3_img_3.jpg'']"
proof -
  note t = running_counter_names [OF refl, of test_libraries "[1]" "''in/report.pdf''" "''out''"
      test_bucket "0.1" "0.1"]
  from t have "image_count (final (extract_images_from_pdf test_libraries [1] ''in/report.pdf'' ''out''
      test_bucket 0.1 0.1)) = length (uploaded (final (extract_images_from_pdf test_libraries [1]
      ''in/report.pdf'' ''out'' test_bucket 0.1 0.1)))"
    by blast
  moreover from t have "distinct (map blob_path (uploaded (final (extract_images_from_pdf
      test_libraries [1] ''in/report.pdf'' ''out'' test_bucket 0.1 0.1))))"
    by blast
  ultimately show ?thesis by (simp add: test_run)
qed

text \<open>The same run with the output directory written with a trailing slash.\<close>

lemma test_run_slash:
  "map blob_path (uploaded (final (extract_images_from_pdf test_libraries [1] ''in/report.pdf''
      ''out/'' test_bucket 0.1 0.1))) =
   [''out/report_page_1_img_1.jpg'', ''out/report_page_3_img_2.jpg'',
    ''out/report_page_3_img_3.jpg'']"
  by (simp add: extract_images_from_pdf_def finally_close_def uncaught_def truthy_def page_count_def
      test_limits
      image_step_def filter_and_process_def process_kept_def extract_and_upload_def
      skip_header_footer_def is_potentially_header_footer_def convert_to_rgb_def
      final_blob_path_def final_image_name_def pdf_filename_base_def basename_def
      splitext_root_def strip_def str_nat.simps
      test_page1_def test_page2_def test_page3_def test_document_def test_libraries_def
      test_bucket_def info_def init_state_def rect_in_body_def rect_in_header_def
      is_Exception_def Let_def)

text \<open>
  Claim C4 as stated takes the path to be the output directory, a slash and the
  name. Line 133 strips the slashes at both ends of the directory first: with the
  directory \<^verbatim>\<open>out/\<close> the first upload goes to \<^verbatim>\<open>out/report_page_1_img_1.jpg\<close>, which is
  not \<^verbatim>\<open>out/\<close> followed by a slash and a name, whatever the numbers.
\<close>

theorem write_path_verbatim_dir_counterexample:
  "map blob_path (uploaded (final (extract_images_from_pdf test_libraries [1] ''in/report.pdf''
      ''out/'' test_bucket 0.1 0.1))) ! 0 = ''out/report_page_1_img_1.jpg''
   \<and> (\<forall>N M. map blob_path (uploaded (final (extract_images_from_pdf test_libraries [1]
          ''in/report.pdf'' ''out/'' test_bucket 0.1 0.1))) ! 0 \<noteq>
        ''out/'' @ ''/'' @ pdf_filename_base ''in/report.pdf'' @ ''_page_'' @ str_nat N @
        ''_img_'' @ str_nat M @ ''.jpg'')"
  unfolding test_run_slash by simp

text \<open>
  Claim C4, amended. Every blob a run uploads holds the bytes the image library
  saved in the format JPEG with quality 85 from the converted decoding of the
  image extracted for a reference listed on a page of the document, whatever the
  extension the extraction reported; its content type is \<^verbatim>\<open>image/jpeg\<close>; and its
  path is the output directory without its leading and trailing slashes, a slash,
  the base name of the document, \<^verbatim>\<open>_page_\<close> and the 1-based number of that page,
  \<^verbatim>\<open>_img_\<close> and the 1-based running counter, and the extension \<^verbatim>\<open>.jpg\<close>.
\<close>

theorem uploads_are_jpeg_under_stripped_dir:
  assumes "r = extract_images_from_pdf L s name dir bkt header_ratio footer_ratio"
    and "k < length (uploaded (final r))"
  shows "\<exists>d n xr bi image_bytes pil_image.
           fitz_open L s = Inr d \<and> listed d n xr \<and>
           extract_image d xr = Inr (Some bi) \<and> image_entry bi = Some image_bytes \<and>
           Image_open L image_bytes = Inr pil_image \<and>
           Image_save L (convert_to_rgb pil_image) ''JPEG'' 85 =
             Inr (blob_data (uploaded (final r) ! k)) \<and>
           blob_content_type (uploaded (final r) ! k) = ''image/jpeg'' \<and>
           blob_path (uploaded (final r) ! k) =
             strip ''/'' dir @ ''/'' @ pdf_filename_base name @ ''_page_'' @ str_nat (n + 1) @
             ''_img_'' @ str_nat (k + 1) @ ''.jpg'' \<and>
           endswith (blob_path (uploaded (final r) ! k)) ''.jpg''"
proof (cases "fitz_open L s")
  case (Inl e)
  then have "final r = init_state" unfolding assms(1) by (rule run_not_opened)
  with assms(2) show ?thesis by (simp add: init_state_def)
next
  case (Inr d)
  let ?c = "\<lparr>libs = L, pdf_document = d, output_bucket_obj = bkt, pdf_gcs_name = name,
    image_dir = dir\<rparr>"
  from uploads_from_init [OF run_uploads [OF Inr, of bkt name dir header_ratio footer_ratio]] assms
  obtain n xr where q: "listed d n xr" and w: "written_from ?c n xr k (uploaded (final r) ! k)"
    by blast
  from w obtain bi image_bytes pil_image where
    x: "extract_image d xr = Inr (Some bi)" "image_entry bi = Some image_bytes"
       "Image_open L image_bytes = Inr pil_image"
       "Image_save L (convert_to_rgb pil_image) ''JPEG'' 85 = Inr (blob_data (uploaded (final r) ! k))"
       "blob_path (uploaded (final r) ! k) = final_blob_path dir name n k"
       "blob_content_type (uploaded (final r) ! k) = ''image/jpeg''"
    unfolding written_from_def by auto
  have p: "blob_path (uploaded (final r) ! k) =
      strip ''/'' dir @ ''/'' @ pdf_filename_base name @ ''_page_'' @ str_nat (n + 1) @
      ''_img_'' @ str_nat (k + 1) @ ''.jpg''"
    using x(5) by (simp add: final_blob_path_def final_image_name_def)
  have "endswith ((strip ''/'' dir @ ''/'' @ pdf_filename_base name @ ''_page_'' @ str_nat (n + 1) @
      ''_img_'' @ str_nat (k + 1)) @ ''.jpg'') ''.jpg''"
    by (rule endswith_append)
  then have "endswith (blob_path (uploaded (final r) ! k)) ''.jpg''"
    by (simp add: p)
  with Inr q x(1-4,6) p show ?thesis by blast
qed

theorem uploads_are_jpeg_under_stripped_dir_witness:
  "\<exists>d n xr bi image_bytes pil_image.
     fitz_open test_libraries [1] = Inr d \<and> listed d n xr \<and>
     extract_image d xr = Inr (Some bi) \<and> image_entry bi = Some image_bytes \<and>
     Image_open test_libraries image_bytes = Inr pil_image \<and>
     Image_save test_libraries (convert_to_rgb pil_image) ''JPEG'' 85 = Inr [255, 216] \<and>
     ''out/report_page_3_img_2.jpg'' =
       strip ''/'' ''out'' @ ''/'' @ pdf_filename_base ''in/report.pdf'' @ ''_page_'' @
       str_nat (n + 1) @ ''_img_'' @ str_nat (1 + 1) @ ''.jpg''"
proof -
  have "1 < length (uploaded (final (extract_images_from_pdf test_libraries [1] ''in/report.pdf''
      ''out'' test_bucket 0.1 0.1)))"
    by (simp add: test_run)
  from uploads_are_jpeg_under_stripped_dir [OF refl this]
  show ?thesis unfolding test_run by simp blast
qed

section \<open>The conversion before the encoder\<close>

text \<open>
  Claim C5 as stated speaks of any mode that carries an alpha channel. Lines 117
  and 120 test for the modes \<^verbatim>\<open>RGBA\<close>, \<^verbatim>\<open>P\<close> and \<^verbatim>\<open>LA\<close> by name: a decoded image of
  mode \<^verbatim>\<open>PA\<close> (palette with alpha) is neither composited nor converted, and what is
  handed to the encoder still has its alpha band and its palette.
\<close>

theorem conversion_misses_palette_alpha_counterexample:
  "has_alpha_channel (mode (Opened ''PA'' (1, 1) [1]))
   \<and> palette_indexed (mode (Opened ''PA'' (1, 1) [1]))
   \<and> convert_to_rgb (Opened ''PA'' (1, 1) [1]) = Opened ''PA'' (1, 1) [1]
   \<and> has_alpha_channel (mode (convert_to_rgb (Opened ''PA'' (1, 1) [1])))"
  by (simp add: has_alpha_channel_def palette_indexed_def convert_to_rgb_def)

text \<open>
  Claim C5, amended. A decoded image of mode \<^verbatim>\<open>RGBA\<close> or \<^verbatim>\<open>LA\<close> is pasted onto a new
  white (255, 255, 255) RGB image of its own size with its last band, the alpha
  channel, as the mask; an image of mode \<^verbatim>\<open>P\<close> is converted to RGB directly. For
  these three modes the result has mode RGB and the size of the input, so it
  carries neither an alpha channel nor a palette. An image of any other mode is
  handed to the encoder as it is.
\<close>

theorem conversion_by_mode:
  "(mode im = ''RGBA'' \<or> mode im = ''LA'' \<longrightarrow>
      convert_to_rgb im =
        Pasted (New ''RGB'' (size_px im) (255, 255, 255)) im (Last_band im))
   \<and> (mode im = ''P'' \<longrightarrow> convert_to_rgb im = Converted im ''RGB'')
   \<and> (mode im = ''RGBA'' \<or> mode im = ''LA'' \<or> mode im = ''P'' \<longrightarrow>
        mode (convert_to_rgb im) = ''RGB'' \<and> size_px (convert_to_rgb im) = size_px im \<and>
        \<not> has_alpha_channel (mode (convert_to_rgb im)) \<and>
        \<not> palette_indexed (mode (convert_to_rgb im)))
   \<and> (mode im \<noteq> ''RGBA'' \<and> mode im \<noteq> ''LA'' \<and> mode im \<noteq> ''P'' \<longrightarrow> convert_to_rgb im = im)"
  by (auto simp: convert_to_rgb_def has_alpha_channel_def palette_indexed_def)

theorem conversion_by_mode_witness:
  "convert_to_rgb (Opened ''LA'' (4, 3) [1]) =
     Pasted (New ''RGB'' (4, 3) (255, 255, 255)) (Opened ''LA'' (4, 3) [1])
       (Last_band (Opened ''LA'' (4, 3) [1]))
   \<and> convert_to_rgb (Opened ''P'' (4, 3) [1]) = Converted (Opened ''P'' (4, 3) [1]) ''RGB''
   \<and> convert_to_rgb (Opened ''L'' (4, 3) [1]) = Opened ''L'' (4, 3) [1]
   \<and> mode (convert_to_rgb (Opened ''RGBA'' (4, 3) [1])) = ''RGB''"
  using conversion_by_mode [of "Opened ''LA'' (4, 3) [1]"]
    conversion_by_mode [of "Opened ''P'' (4, 3) [1]"]
    conversion_by_mode [of "Opened ''L'' (4, 3) [1]"]
    conversion_by_mode [of "Opened ''RGBA'' (4, 3) [1]"]
  by simp

section \<open>The validation of the trigger\<close>

lemma lower_jpg: "lower (xs @ ''.jpg'') = lower xs @ ''.jpg''"
  by (simp add: lower_def lower_char_def)

lemma jpg_is_no_pdf: "\<not> endswith (lower (xs @ ''.jpg'')) ''.pdf''"
  by (simp add: lower_jpg endswith_def)

lemma output_prefix: "strip ''/'' OUTPUT_IMAGE_DIR @ ''/'' = ''extracted-pdf-images/''"
  by (simp add: OUTPUT_IMAGE_DIR_def strip_def)

lemma own_upload_not_accepted:
  "basic_validation b (final_blob_path dir name n k) = Not_pdf"
proof -
  have "final_blob_path dir name n k =
      (strip ''/'' dir @ ''/'' @ pdf_filename_base name @ ''_page_'' @ str_nat (n + 1) @
        ''_img_'' @ str_nat (k + 1)) @ ''.jpg''"
    by (simp add: final_blob_path_def final_image_name_def)
  then have "\<not> endswith (lower (final_blob_path dir name n k)) ''.pdf''"
    by (simp only: jpg_is_no_pdf not_False_eq_True)
  then show ?thesis by (simp add: basic_validation_def)
qed

text \<open>
  Claim C7. For an event that carries the entries the entry point reads: if the
  object name does not end in \<^verbatim>\<open>.pdf\<close>, compared in lower case, the call ends as
  ignored, with no download, no extraction and no exception; if the bucket is the
  configured output bucket and the name starts with the prefix of the output
  directory (\<^verbatim>\<open>extracted-pdf-images/\<close>), the call ends as ignored as well; the name
  \<^verbatim>\<open>report.PDF\<close> in any other bucket passes the validation and is downloaded and
  processed. A path under which the extraction uploads is never accepted, so the
  program does not process its own output.
\<close>

theorem validation_gate:
  assumes "data ev ''bucket'' = Some input_bucket_name"
    and "data ev ''name'' = Some input_file_name"
    and "data ev ''metageneration'' \<noteq> None"
    and "data ev ''timeCreated'' \<noteq> None"
    and "data ev ''updated'' \<noteq> None"
  shows "(\<not> endswith (lower input_file_name) ''.pdf'' \<longrightarrow>
            extract_images_from_pdf_gcs_trigger L client ev = Ignored Not_pdf)
       \<and> (input_bucket_name = OUTPUT_BUCKET_NAME \<and>
          startswith input_file_name (strip ''/'' OUTPUT_IMAGE_DIR @ ''/'') \<longrightarrow>
            extract_images_from_pdf_gcs_trigger L client ev =
              Ignored (if endswith (lower input_file_name) ''.pdf'' then Own_output else Not_pdf))
       \<and> (input_bucket_name \<noteq> OUTPUT_BUCKET_NAME \<and> input_file_name = ''report.PDF'' \<longrightarrow>
            basic_validation input_bucket_name input_file_name = Accepted \<and>
            extract_images_from_pdf_gcs_trigger L client ev =
              download_and_process L client input_bucket_name input_file_name)
       \<and> strip ''/'' OUTPUT_IMAGE_DIR @ ''/'' = ''extracted-pdf-images/''
       \<and> basic_validation OUTPUT_BUCKET_NAME (final_blob_path OUTPUT_IMAGE_DIR name n k) = Not_pdf"
proof -
  have t: "extract_images_from_pdf_gcs_trigger L client ev =
      (case basic_validation input_bucket_name input_file_name of
         Accepted \<Rightarrow> download_and_process L client input_bucket_name input_file_name
       | Not_pdf \<Rightarrow> Ignored Not_pdf
       | Own_output \<Rightarrow> Ignored Own_output)"
    using assms by (auto simp: extract_images_from_pdf_gcs_trigger_def split: validation.splits)
  have a: "\<not> endswith (lower input_file_name) ''.pdf'' \<longrightarrow>
      extract_images_from_pdf_gcs_trigger L client ev = Ignored Not_pdf"
    unfolding t by (simp add: basic_validation_def)
  have b: "input_bucket_name = OUTPUT_BUCKET_NAME \<and>
      startswith input_file_name (strip ''/'' OUTPUT_IMAGE_DIR @ ''/'') \<longrightarrow>
      extract_images_from_pdf_gcs_trigger L client ev =
        Ignored (if endswith (lower input_file_name) ''.pdf'' then Own_output else Not_pdf)"
    unfolding t by (auto simp: basic_validation_def endswith_def lower_def)
  have r: "endswith (lower ''report.PDF'') ''.pdf''"
    by (simp add: endswith_def lower_def lower_char_def)
  have c: "input_bucket_name \<noteq> OUTPUT_BUCKET_NAME \<and> input_file_name = ''report.PDF'' \<longrightarrow>
      basic_validation input_bucket_name input_file_name = Accepted \<and>
      extract_images_from_pdf_gcs_trigger L client ev =
        download_and_process L client input_bucket_name input_file_name"
    unfolding t using r by (auto simp: basic_validation_def)
  from a b c output_prefix own_upload_not_accepted show ?thesis by blast
qed

theorem validation_gate_witness:
  "extract_images_from_pdf_gcs_trigger test_libraries test_client (test_event ''inbox'' ''notes.txt'') =
     Ignored Not_pdf
   \<and> extract_images_from_pdf_gcs_trigger test_libraries test_client
        (test_event ''sbi-image-sample'' ''extracted-pdf-images/foo.pdf'') = Ignored Own_output
   \<and> extract_images_from_pdf_gcs_trigger test_libraries test_client (test_event ''inbox'' ''report.PDF'') =
       download_and_process test_libraries test_client ''inbox'' ''report.PDF''"
proof -
  have d: "data (test_event b nm) ''bucket'' = Some b" "data (test_event b nm) ''name'' = Some nm"
    "data (test_event b nm) ''metageneration'' \<noteq> None"
    "data (test_event b nm) ''timeCreated'' \<noteq> None"
    "data (test_event b nm) ''updated'' \<noteq> None" for b nm
    by (simp_all add: test_event_def)
  note t1 = validation_gate [OF d [of "''inbox''" "''notes.txt''"],
      where L = test_libraries and client = test_client]
  note t2 = validation_gate [OF d [of "''sbi-image-sample''" "''extracted-pdf-images/foo.pdf''"],
      where L = test_libraries and client = test_client]
  note t3 = validation_gate [OF d [of "''inbox''" "''report.PDF''"],
      where L = test_libraries and client = test_client]
  have "\<not> endswith (lower ''notes.txt'') ''.pdf''"
    by (simp add: endswith_def lower_def lower_char_def)
  with t1 have a: "extract_images_from_pdf_gcs_trigger test_libraries test_client
      (test_event ''inbox'' ''notes.txt'') = Ignored Not_pdf"
    by blast
  have "''sbi-image-sample'' = OUTPUT_BUCKET_NAME \<and>
      startswith ''extracted-pdf-images/foo.pdf'' (strip ''/'' OUTPUT_IMAGE_DIR @ ''/'')"
    by (simp add: OUTPUT_BUCKET_NAME_def output_prefix startswith_def)
  with t2 have "extract_images_from_pdf_gcs_trigger test_libraries test_client
      (test_event ''sbi-image-sample'' ''extracted-pdf-images/foo.pdf'') =
      Ignored (if endswith (lower ''extracted-pdf-images/foo.pdf'') ''.pdf'' then Own_output else Not_pdf)"
    by blast
  then have b: "extract_images_from_pdf_gcs_trigger test_libraries test_client
      (test_event ''sbi-image-sample'' ''extracted-pdf-images/foo.pdf'') = Ignored Own_output"
    by (simp add: endswith_def lower_def lower_char_def)
  have "''inbox'' \<noteq> OUTPUT_BUCKET_NAME \<and> ''report.PDF'' = ''report.PDF''"
    by (simp add: OUTPUT_BUCKET_NAME_def)
  with t3 have c: "extract_images_from_pdf_gcs_trigger test_libraries test_client
      (test_event ''inbox'' ''report.PDF'') =
       download_and_process test_libraries test_client ''inbox'' ''report.PDF''"
    by blast
  from a b c show ?thesis by simp
qed

section \<open>Closing the document\<close>

text \<open>
  \<^verbatim>\<open>close\<close> is called exactly when \<^verbatim>\<open>fitz.open\<close> returned a document that has a page:
  the \<^verbatim>\<open>finally\<close> block runs on every path, but it tests the truth value of the
  document object.
\<close>

lemma close_called_iff:
  "close_called (extract_images_from_pdf L s name dir bkt hr fr) \<longleftrightarrow>
     (\<exists>d. fitz_open L s = Inr d \<and> pages d \<noteq> [])"
  by (auto simp: extract_images_from_pdf_def finally_close_def truthy_def page_count_def Let_def
      split: sum.splits prod.splits)

lemma opened_iff:
  "opened (extract_images_from_pdf L s name dir bkt hr fr) \<longleftrightarrow> (\<exists>d. fitz_open L s = Inr d)"
  by (auto simp: extract_images_from_pdf_def Let_def split: sum.splits prod.splits)

lemma document_with_pages_is_closed:
  assumes "fitz_open L s = Inr d" and "pages d \<noteq> []"
  shows "close_called (extract_images_from_pdf L s name dir bkt hr fr)"
  using assms by (simp add: close_called_iff)

text \<open>
  Claim C9 says that a document that was opened is closed on every exit path. For
  a PDF without pages \<^verbatim>\<open>fitz.open\<close> returns a document, the loop over the pages does
  nothing, no exception is raised, and line 156 finds the document object false
  (its length is its page count): \<^verbatim>\<open>close\<close> is not called.
\<close>

theorem document_without_pages_not_closed:
  "opened (extract_images_from_pdf test_libraries [0] ''in/empty.pdf'' ''out'' test_bucket 0.1 0.1)
   \<and> \<not> close_called (extract_images_from_pdf test_libraries [0] ''in/empty.pdf'' ''out''
        test_bucket 0.1 0.1)
   \<and> propagated (extract_images_from_pdf test_libraries [0] ''in/empty.pdf'' ''out''
        test_bucket 0.1 0.1) = None"
  by (simp add: extract_images_from_pdf_def finally_close_def truthy_def page_count_def
      uncaught_def test_libraries_def empty_document_def Let_def)

end
